theory Spec2Isabelle
  imports Main
begin

section \<open>Strings and the host environment\<close>

text \<open>
  \<^verbatim>\<open>src/js/parser.js\<close> holds two copies of the parser; the first one (lines 1 to 1092)
  is the newer variant and is the one embedded here.

  A JavaScript string is held as the list of its UTF-8 bytes. Every character the parser
  inspects (the separators \<^verbatim>\<open>-\<close>, \<^verbatim>\<open>_\<close>, \<^verbatim>\<open>:\<close>, \<^verbatim>\<open>/\<close>, the five characters it escapes, digits,
  the duration letters) is ASCII, and an ASCII byte never occurs inside the UTF-8
  encoding of another character, so searching, splitting and replacing on bytes agree
  with the same operations on UTF-16 code units. The white space characters of
  ECMAScript beyond ASCII are recognised by their byte sequences.

  Four things the code takes from the JavaScript engine and not from the repository
  are parameters, gathered in the record \<open>host\<close>:
  \<^item> \<open>toLowerCase\<close>: \<^verbatim>\<open>String.prototype.toLowerCase\<close> (the Unicode case mapping);
  \<^item> \<open>localeCompare\<close>: \<^verbatim>\<open>a.localeCompare(b, 'de')\<close> (the German collation);
  \<^item> \<open>inherited\<close>: for a property name, the text JavaScript prints for the value that
    \<^verbatim>\<open>Object.prototype\<close> holds under that name (\<^verbatim>\<open>constructor\<close>, \<^verbatim>\<open>toString\<close>, ...), \<open>None\<close>
    when it has no such property. A lookup \<^verbatim>\<open>obj[key]\<close> in an object literal falls
    back to these;
  \<^item> \<open>bigNumberText\<close>: the text printed for the double nearest to an integer of
    magnitude \<open>2^53\<close> or more (below that bound a double is exact and printed in
    decimal).
\<close>

record host =
  toLowerCase :: "string \<Rightarrow> string"
  localeCompare :: "string \<Rightarrow> string \<Rightarrow> int"
  inherited :: "string \<Rightarrow> string option"
  bigNumberText :: "int \<Rightarrow> string"

text \<open>Non-ASCII literals of the source, as UTF-8.\<close>

definition a_uml :: string where "a_uml = [CHR 0xC3, CHR 0xA4]"
definition u_uml :: string where "u_uml = [CHR 0xC3, CHR 0xBC]"
definition times_sign :: string where "times_sign = [CHR 0xC3, CHR 0x97]"
definition nbsp :: string where "nbsp = [CHR 0xC2, CHR 0xA0]"

subsection \<open>White space, trim, split\<close>

text \<open>
  The ECMAScript white space and line terminator characters (the set of \<^verbatim>\<open>\s\<close>, of
  \<^verbatim>\<open>trim\<close> and of the prefix that \<^verbatim>\<open>parseInt\<close> skips): U+0009 to U+000D, U+0020, U+00A0,
  U+1680, U+2000 to U+200A, U+2028, U+2029, U+202F, U+205F, U+3000, U+FEFF.
\<close>

definition asciiWs :: "char list" where
  "asciiWs = [CHR 0x09, CHR 0x0A, CHR 0x0B, CHR 0x0C, CHR 0x0D, CHR 0x20]"

definition ws3 :: "string list" where
  "ws3 = [[CHR 0xE1, CHR 0x9A, CHR 0x80],
          [CHR 0xE2, CHR 0x80, CHR 0x80], [CHR 0xE2, CHR 0x80, CHR 0x81],
          [CHR 0xE2, CHR 0x80, CHR 0x82], [CHR 0xE2, CHR 0x80, CHR 0x83],
          [CHR 0xE2, CHR 0x80, CHR 0x84], [CHR 0xE2, CHR 0x80, CHR 0x85],
          [CHR 0xE2, CHR 0x80, CHR 0x86], [CHR 0xE2, CHR 0x80, CHR 0x87],
          [CHR 0xE2, CHR 0x80, CHR 0x88], [CHR 0xE2, CHR 0x80, CHR 0x89],
          [CHR 0xE2, CHR 0x80, CHR 0x8A],
          [CHR 0xE2, CHR 0x80, CHR 0xA8], [CHR 0xE2, CHR 0x80, CHR 0xA9],
          [CHR 0xE2, CHR 0x80, CHR 0xAF], [CHR 0xE2, CHR 0x81, CHR 0x9F],
          [CHR 0xE3, CHR 0x80, CHR 0x80], [CHR 0xEF, CHR 0xBB, CHR 0xBF]]"

text \<open>The number of bytes of the white space character at the head of \<open>s\<close>, 0 if there is none.\<close>

definition wsLen :: "string \<Rightarrow> nat" where
  "wsLen s =
     (if s = [] then 0
      else if hd s \<in> set asciiWs then 1
      else if take 2 s = nbsp then 2
      else if take 3 s \<in> set ws3 then 3
      else 0)"

lemma wsLen_less: "0 < wsLen s \<Longrightarrow> length s - wsLen s < length s"
  by (cases s) (simp_all add: wsLen_def)

function trimStart :: "string \<Rightarrow> string" where
  "trimStart s = (if 0 < wsLen s then trimStart (drop (wsLen s) s) else s)"
  by pat_completeness auto
termination
  by (relation "measure length") (simp_all add: wsLen_less)

declare trimStart.simps [simp del]

lemma length_trimStart: "length (trimStart s) \<le> length s"
proof (induction s rule: trimStart.induct)
  case (1 s)
  show ?case
  proof (cases "0 < wsLen s")
    case True
    with 1 have "length (trimStart (drop (wsLen s) s)) \<le> length (drop (wsLen s) s)" by simp
    with True show ?thesis by (subst trimStart.simps) simp
  next
    case False
    then show ?thesis by (subst trimStart.simps) simp
  qed
qed

function allWs :: "string \<Rightarrow> bool" where
  "allWs s = (if s = [] then True else if 0 < wsLen s then allWs (drop (wsLen s) s) else False)"
  by pat_completeness auto
termination
  by (relation "measure length") (simp_all add: wsLen_less)

declare allWs.simps [simp del]

fun trimEnd :: "string \<Rightarrow> string" where
  "trimEnd [] = []"
| "trimEnd (c # cs) = (if allWs (c # cs) then [] else c # trimEnd cs)"

definition trim :: "string \<Rightarrow> string" where
  "trim s = trimEnd (trimStart s)"

text \<open>\<^verbatim>\<open>s.split(/\s+/)\<close>: the pieces between the maximal runs of white space.\<close>

function splitWs :: "string \<Rightarrow> string list" where
  "splitWs s =
     (if s = [] then [[]]
      else if 0 < wsLen s then [] # splitWs (trimStart s)
      else (case splitWs (tl s) of p # ps \<Rightarrow> (hd s # p) # ps | [] \<Rightarrow> [[hd s]]))"
  by pat_completeness auto
termination
proof (relation "measure length")
  show "wf (measure length)" by simp
next
  fix s :: string
  assume "s \<noteq> []" "0 < wsLen s"
  then have "length (drop (wsLen s) s) < length s"
    by (simp add: wsLen_less)
  moreover have "length (trimStart (drop (wsLen s) s)) \<le> length (drop (wsLen s) s)"
    by (rule length_trimStart)
  ultimately show "(trimStart s, s) \<in> measure length"
    using \<open>0 < wsLen s\<close> by (subst trimStart.simps) simp
next
  fix s :: string
  assume "s \<noteq> []"
  then show "(tl s, s) \<in> measure length" by (cases s) auto
qed

declare splitWs.simps [simp del]

text \<open>\<^verbatim>\<open>s.split(c)\<close> for a one-character separator.\<close>

fun splitOn :: "char \<Rightarrow> string \<Rightarrow> string list" where
  "splitOn c [] = [[]]"
| "splitOn c (x # xs) =
     (if x = c then [] # splitOn c xs
      else (case splitOn c xs of p # ps \<Rightarrow> (x # p) # ps | [] \<Rightarrow> [[x]]))"

text \<open>\<^verbatim>\<open>parts.join(sep)\<close>.\<close>

fun join :: "string \<Rightarrow> string list \<Rightarrow> string" where
  "join sep [] = []"
| "join sep [x] = x"
| "join sep (x # y # ys) = x @ sep @ join sep (y # ys)"

definition startsWith :: "string \<Rightarrow> string \<Rightarrow> bool" where
  "startsWith s p = (take (length p) s = p)"


subsection \<open>Escaping\<close>

text \<open>\<^verbatim>\<open>s.replace(/c/g, r)\<close> for a single character \<open>c\<close>.\<close>

definition replaceAll :: "char \<Rightarrow> string \<Rightarrow> string \<Rightarrow> string" where
  "replaceAll c r s = concat (map (\<lambda>x. if x = c then r else [x]) s)"

text \<open>
  \<^verbatim>\<open>escapeAttr\<close> (lines 1078 to 1085): five replacements, one after the other, in the
  order of the source. \<^verbatim>\<open>String(text || '')\<close> is the identity on a string.
\<close>

definition escapeAttr :: "string \<Rightarrow> string" where
  \<open>escapeAttr text =
     replaceAll CHR ''>'' ''&gt;''
       (replaceAll CHR ''<'' ''&lt;''
         (replaceAll CHR 0x27 ''&#39;''
           (replaceAll CHR 0x22 ''&quot;''
             (replaceAll CHR ''&'' ''&amp;'' text))))\<close>

text \<open>
  \<^verbatim>\<open>escapeHTML\<close> (lines 1069 to 1073) stores the text as the \<^verbatim>\<open>textContent\<close> of a fresh
  \<^verbatim>\<open>div\<close> of the page and reads its \<^verbatim>\<open>innerHTML\<close> back. The browser serialises a text
  node by the HTML fragment serialisation algorithm, which outside attributes replaces
  \<^verbatim>\<open>&\<close> by \<^verbatim>\<open>&amp;\<close>, U+00A0 by \<^verbatim>\<open>&nbsp;\<close>, \<^verbatim>\<open><\<close> by \<^verbatim>\<open>&lt;\<close> and \<^verbatim>\<open>>\<close> by \<^verbatim>\<open>&gt;\<close>, and leaves every
  other character, the two quote characters among them, as it is.
\<close>

definition escapeChar :: "char \<Rightarrow> string" where
  "escapeChar c =
     (if c = CHR ''&'' then ''&amp;''
      else if c = CHR ''<'' then ''&lt;''
      else if c = CHR ''>'' then ''&gt;''
      else [c])"

fun escapeHTML :: "string \<Rightarrow> string" where
  "escapeHTML [] = []"
| "escapeHTML [c] = escapeChar c"
| "escapeHTML (c # d # cs) =
     (if [c, d] = nbsp then ''&nbsp;'' @ escapeHTML cs
      else escapeChar c @ escapeHTML (d # cs))"

subsection \<open>Numbers and lookups\<close>

definition isDigit :: "char \<Rightarrow> bool" where
  "isDigit c = (48 \<le> (of_char c :: nat) \<and> (of_char c :: nat) \<le> 57)"

definition digitVal :: "char \<Rightarrow> nat" where
  "digitVal c = of_char c - 48"

definition digitsVal :: "string \<Rightarrow> nat" where
  "digitsVal ds = foldl (\<lambda>a c. 10 * a + digitVal c) 0 ds"

text \<open>
  \<^verbatim>\<open>parseInt(s, 10)\<close>: skip leading white space, read an optional sign, then the longest
  run of decimal digits; \<open>None\<close> is \<^verbatim>\<open>NaN\<close> (no digit). The value is the mathematical
  integer; see \<open>numberText\<close> for what is printed.
\<close>

definition parseInt :: "string \<Rightarrow> int option" where
  "parseInt str =
     (let S = trimStart str;
          neg = (S \<noteq> [] \<and> hd S = CHR ''-'');
          S1 = (if S \<noteq> [] \<and> (hd S = CHR ''+'' \<or> hd S = CHR ''-'') then tl S else S);
          Z = takeWhile isDigit S1
      in if Z = [] then None
         else Some ((if neg then - 1 else 1) * int (digitsVal Z)))"

fun showNat :: "nat \<Rightarrow> string" where
  "showNat n =
     (if n < 10 then [char_of (48 + n)]
      else showNat (n div 10) @ [char_of (48 + n mod 10)])"

declare showNat.simps [simp del]

text \<open>A number inside a template literal: \<^verbatim>\<open>NaN\<close>, or the integer in decimal.\<close>

definition numberText :: "host \<Rightarrow> int option \<Rightarrow> string" where
  "numberText h v =
     (case v of
        None \<Rightarrow> ''NaN''
      | Some n \<Rightarrow>
          if 2 ^ 53 \<le> \<bar>n\<bar> then bigNumberText h n
          else if n < 0 then ''-'' @ showNat (nat (- n))
          else showNat (nat n))"

text \<open>\<^verbatim>\<open>arr[i]\<close> for an array of strings and a number: \<open>None\<close> is \<^verbatim>\<open>undefined\<close>.\<close>

definition arrayGet :: "string list \<Rightarrow> int option \<Rightarrow> string option" where
  "arrayGet arr i =
     (case i of
        None \<Rightarrow> None
      | Some n \<Rightarrow> if 0 \<le> n \<and> n < int (length arr) then Some (arr ! nat n) else None)"

text \<open>A string or \<^verbatim>\<open>undefined\<close> inside a template literal.\<close>

definition optText :: "string option \<Rightarrow> string" where
  "optText v = (case v of None \<Rightarrow> ''undefined'' | Some s \<Rightarrow> s)"

text \<open>
  A value read from an object literal \<^verbatim>\<open>obj[key]\<close>: a string of the literal, or what
  \<^verbatim>\<open>Object.prototype\<close> holds under \<open>key\<close>. \<open>None\<close> is \<^verbatim>\<open>undefined\<close>. All values of the
  literals in the source are non-empty strings, and everything inherited is an object,
  so a value that is found is truthy.
\<close>

datatype jsval = Str string | Inherited string

definition objectGet :: "host \<Rightarrow> (string \<times> string) list \<Rightarrow> string \<Rightarrow> jsval option" where
  "objectGet h obj k =
     (case map_of obj k of
        Some v \<Rightarrow> Some (Str v)
      | None \<Rightarrow> (case inherited h k of Some t \<Rightarrow> Some (Inherited k) | None \<Rightarrow> None))"

definition valText :: "host \<Rightarrow> jsval \<Rightarrow> string" where
  "valText h v = (case v of Str s \<Rightarrow> s | Inherited k \<Rightarrow> optText (inherited h k))"

section \<open>Date formatter\<close>

definition months :: "string list" where
  "months = [''Januar'', ''Februar'', ''M'' @ a_uml @ ''rz'', ''April'', ''Mai'', ''Juni'',
             ''Juli'', ''August'', ''September'', ''Oktober'', ''November'', ''Dezember'']"

text \<open>\<^verbatim>\<open>formatDate\<close> (lines 319 to 337).\<close>

definition formatDate :: "host \<Rightarrow> string \<Rightarrow> string" where
  "formatDate h isoDate =
     (if isoDate = [] then []
      else
        let parts = splitOn CHR ''-'' isoDate in
        if length parts = 3 then
          let day = parseInt (parts ! 2);
              month = arrayGet months (map_option (\<lambda>m. m - 1) (parseInt (parts ! 1)));
              year = parts ! 0
          in numberText h day @ ''. '' @ optText month @ '' '' @ year
        else if length parts = 2 then
          let month = arrayGet months (map_option (\<lambda>m. m - 1) (parseInt (parts ! 1)));
              year = parts ! 0
          in optText month @ '' '' @ year
        else isoDate)"

section \<open>Rendition classes\<close>

definition rendMap :: "(string \<times> string) list" where
  "rendMap =
     [(''sup'', ''simple_superscript''),
      (''super'', ''simple_superscript''),
      (''superscript'', ''simple_superscript''),
      (''sub'', ''simple_subscript''),
      (''subscript'', ''simple_subscript''),
      (''italic'', ''simple_italic''),
      (''italics'', ''simple_italic''),
      (''bold'', ''simple_bold''),
      (''underline'', ''simple_underline''),
      (''strikethrough'', ''simple_strikethrough''),
      (''smallcaps'', ''simple_smallcaps''),
      (''small-caps'', ''simple_smallcaps''),
      (''allcaps'', ''simple_allcaps''),
      (''uppercase'', ''simple_allcaps''),
      (''larger'', ''simple_larger''),
      (''smaller'', ''simple_smaller''),
      (''letter-space'', ''simple_letterspace''),
      (''letterspace'', ''simple_letterspace''),
      (''letterspacing'', ''simple_letterspace''),
      (''spaced'', ''simple_letterspace''),
      (''gesperrt'', ''simple_letterspace''),
      (''sperrung'', ''simple_letterspace''),
      (''center'', ''simple_centre''),
      (''centre'', ''simple_centre''),
      (''right'', ''simple_right''),
      (''left'', ''simple_left'')]"

text \<open>The characters kept by \<^verbatim>\<open>replace(/[^a-z0-9_-]/g, '')\<close>.\<close>

definition safeChar :: "char \<Rightarrow> bool" where
  "safeChar c =
     ((97 \<le> (of_char c :: nat) \<and> (of_char c :: nat) \<le> 122) \<or> isDigit c
      \<or> c = CHR ''_'' \<or> c = CHR ''-'')"

text \<open>
  One round of the loop over the tokens (lines 896 to 916): the class pushed for the
  token, \<open>None\<close> when nothing is pushed.
\<close>

definition tokenClass :: "host \<Rightarrow> string \<Rightarrow> jsval option" where
  "tokenClass h token =
     (if startsWith token ''simple:'' then Some (Str (''simple_'' @ filter safeChar (drop 7 token)))
      else if startsWith token ''simple_'' then Some (Str token)
      else if startsWith token ''simple-'' then Some (Str (''simple_'' @ drop 7 token))
      else
        let normalized = map (\<lambda>c. if c = CHR ''_'' then CHR ''-'' else c) token;
            compact = filter (\<lambda>c. c \<noteq> CHR ''-'') normalized
        in (case objectGet h rendMap normalized of
              Some v \<Rightarrow> Some v
            | None \<Rightarrow> objectGet h rendMap compact))"

text \<open>\<^verbatim>\<open>Array.from(new Set(xs))\<close>: the first occurrence of every value, in order.\<close>

definition uniq :: "'a list \<Rightarrow> 'a list" where
  "uniq xs = fold (\<lambda>x acc. if x \<in> set acc then acc else acc @ [x]) xs []"

definition rendTokens :: "host \<Rightarrow> string \<Rightarrow> string list" where
  "rendTokens h rend = filter (\<lambda>t. t \<noteq> []) (map trim (splitWs (toLowerCase h rend)))"

text \<open>\<^verbatim>\<open>getRenditionClass\<close> (lines 857 to 923).\<close>

definition getRenditionClass :: "host \<Rightarrow> string \<Rightarrow> string" where
  "getRenditionClass h rend =
     (if rend = [] then ''tei-hi''
      else
        let tokens = rendTokens h rend;
            classes = List.map_filter (tokenClass h) tokens
        in if length classes = 0 then ''tei-hi''
           else join '' '' (map (valText h) (uniq classes)))"

section \<open>Entity registers\<close>

record entity =
  name :: string
  ref :: string
  role :: string

text \<open>
  \<^verbatim>\<open>Array.prototype.sort\<close> with a comparison function. ECMAScript requires the sort to be
  stable, and for a consistent comparison function (as a collation is) the stable
  sorted order is unique; insertion from the right computes it.
\<close>

fun insertBy :: "('a \<Rightarrow> 'a \<Rightarrow> int) \<Rightarrow> 'a \<Rightarrow> 'a list \<Rightarrow> 'a list" where
  "insertBy c x [] = [x]"
| "insertBy c x (y # ys) = (if c x y \<le> 0 then x # y # ys else y # insertBy c x ys)"

definition arraySort :: "('a \<Rightarrow> 'a \<Rightarrow> int) \<Rightarrow> 'a list \<Rightarrow> 'a list" where
  "arraySort c xs = foldr (insertBy c) xs []"

text \<open>\<^verbatim>\<open>entity.ref || entity.name\<close>.\<close>

definition entityKey :: "entity \<Rightarrow> string" where
  "entityKey e = (if ref e \<noteq> [] then ref e else name e)"

text \<open>
  The loop of \<^verbatim>\<open>deduplicateEntities\<close> (lines 100 to 106): the \<^verbatim>\<open>Map\<close> as the list of
  its entries in insertion order.
\<close>

definition seenStep :: "entity \<Rightarrow> (string \<times> entity) list \<Rightarrow> (string \<times> entity) list" where
  "seenStep e seen =
     (let key = entityKey e
      in if key \<in> set (map fst seen) then seen else seen @ [(key, e)])"

definition deduplicateEntities :: "host \<Rightarrow> entity list \<Rightarrow> entity list" where
  "deduplicateEntities h entities =
     (let seen = fold seenStep entities []
      in arraySort (\<lambda>a b. localeCompare h (name a) (name b)) (map snd seen))"

section \<open>A host for evaluating examples\<close>

text \<open>
  ASCII case mapping, comparison of the bytes in lexicographic order, the text V8 prints
  for the built-in \<^verbatim>\<open>Object\<close> function, and no text for big numbers. It serves to
  run the definitions on concrete inputs.
\<close>

definition asciiLower :: "char \<Rightarrow> char" where
  "asciiLower c =
     (if 65 \<le> (of_char c :: nat) \<and> (of_char c :: nat) \<le> 90 then char_of ((of_char c :: nat) + 32)
      else c)"

fun bytesCompare :: "string \<Rightarrow> string \<Rightarrow> int" where
  "bytesCompare [] [] = 0"
| "bytesCompare [] (y # ys) = - 1"
| "bytesCompare (x # xs) [] = 1"
| "bytesCompare (x # xs) (y # ys) =
     (if (of_char x :: nat) < of_char y then - 1
      else if (of_char y :: nat) < of_char x then 1
      else bytesCompare xs ys)"

definition exampleHost :: host where
  "exampleHost =
     \<lparr> toLowerCase = map asciiLower,
       localeCompare = bytesCompare,
       inherited = (\<lambda>k. if k = ''constructor'' then Some ''function Object() { [native code] }''
                        else None),
       bigNumberText = (\<lambda>n. []) \<rparr>"

text \<open>
  What the sorting needs of the collation: \<open>localeCompare h a b \<le> 0\<close> (\<open>a\<close> does not sort
  after \<open>b\<close>) is total and transitive. A collation is such an order.
\<close>

definition collationOrder :: "host \<Rightarrow> bool" where
  "collationOrder h =
     ((\<forall>a b. localeCompare h a b \<le> 0 \<or> localeCompare h b a \<le> 0) \<and>
      (\<forall>a b c. localeCompare h a b \<le> 0 \<and> localeCompare h b c \<le> 0
                 \<longrightarrow> localeCompare h a c \<le> 0))"

definition exampleEntities :: "entity list" where
  "exampleEntities =
     [\<lparr>name = ''Zwingli'', ref = ''per1'', role = ''''\<rparr>,
      \<lparr>name = ''Anna'', ref = '''', role = ''''\<rparr>,
      \<lparr>name = ''Huldrych'', ref = ''per1'', role = ''x''\<rparr>,
      \<lparr>name = ''Anna'', ref = '''', role = ''y''\<rparr>]"

section \<open>Document tree\<close>

text \<open>
  The parsed XML document, as the DOM presents it to the parser: text, CDATA sections,
  comments and processing instructions are leaves; an element has a namespace URI, a
  local name, its attributes (qualified name and value, in document order) and its child
  nodes. The code never writes to the tree.
\<close>

datatype node =
    Text string
  | CData string
  | Comment string
  | ProcInstr string
  | Element string string "(string \<times> string) list" "node list"

fun childNodes :: "node \<Rightarrow> node list" where
  "childNodes (Element ns nm as ks) = ks"
| "childNodes _ = []"

fun localName :: "node \<Rightarrow> string" where
  "localName (Element ns nm as ks) = nm"
| "localName _ = []"

fun namespaceURI :: "node \<Rightarrow> string" where
  "namespaceURI (Element ns nm as ks) = ns"
| "namespaceURI _ = []"

fun attributes :: "node \<Rightarrow> (string \<times> string) list" where
  "attributes (Element ns nm as ks) = as"
| "attributes _ = []"

fun isElement :: "node \<Rightarrow> bool" where
  "isElement (Element ns nm as ks) = True"
| "isElement _ = False"

text \<open>\<^verbatim>\<open>node.getAttribute(k)\<close>: \<open>None\<close> is \<^verbatim>\<open>null\<close>.\<close>

definition getAttribute :: "node \<Rightarrow> string \<Rightarrow> string option" where
  "getAttribute n k = map_of (attributes n) k"

text \<open>\<^verbatim>\<open>v || ''\<close> for a string or \<^verbatim>\<open>null\<close>.\<close>

definition orEmpty :: "string option \<Rightarrow> string" where
  "orEmpty v = (case v of None \<Rightarrow> [] | Some s \<Rightarrow> s)"

text \<open>\<^verbatim>\<open>a || b\<close> for strings or \<^verbatim>\<open>null\<close>: the first that is a non-empty string, else the second.\<close>

definition orElse :: "string option \<Rightarrow> string option \<Rightarrow> string option" where
  "orElse a b = (if a \<noteq> None \<and> a \<noteq> Some [] then a else b)"

text \<open>
  \<^verbatim>\<open>node.textContent\<close> of an element: the text and CDATA leaves below it, in order;
  comments and processing instructions do not count.
\<close>

fun textContent :: "node \<Rightarrow> string" where
  "textContent (Text t) = t"
| "textContent (CData t) = t"
| "textContent (Comment t) = []"
| "textContent (ProcInstr t) = []"
| "textContent (Element ns nm as ks) = concat (map textContent ks)"

text \<open>
  A node is met together with the chain of its ancestor elements, nearest first (what
  \<^verbatim>\<open>parentElement\<close> walks). \<open>subtree ctx n\<close> lists the elements of the subtree of \<open>n\<close> in
  document order, \<open>n\<close> first, each with its chain; \<open>descendants\<close> leaves \<open>n\<close> out.
\<close>

type_synonym located = "node list \<times> node"

fun subtree :: "node list \<Rightarrow> node \<Rightarrow> located list" where
  "subtree ctx (Element ns nm as ks) =
     (ctx, Element ns nm as ks) # concat (map (subtree (Element ns nm as ks # ctx)) ks)"
| "subtree ctx (Text t) = []"
| "subtree ctx (CData t) = []"
| "subtree ctx (Comment t) = []"
| "subtree ctx (ProcInstr t) = []"

definition descendants :: "node list \<Rightarrow> node \<Rightarrow> located list" where
  "descendants ctx n = concat (map (subtree (n # ctx)) (childNodes n))"

text \<open>The elements of a document, given as the list of the children of the document node.\<close>

definition docElements :: "node list \<Rightarrow> located list" where
  "docElements doc = concat (map (subtree []) doc)"

text \<open>
  The selectors the code uses: a type selector \<^verbatim>\<open>name\<close> (it matches the local name, in any
  namespace), a descendant combinator \<^verbatim>\<open>anc name\<close>, and \<^verbatim>\<open>name[attr="value"]\<close>.
\<close>

datatype selector =
    Tag string
  | Inside string string
  | TagAttr string string string

fun matches :: "selector \<Rightarrow> located \<Rightarrow> bool" where
  "matches (Tag nm) (ctx, n) = (localName n = nm)"
| "matches (Inside anc nm) (ctx, n) = (localName n = nm \<and> (\<exists>a \<in> set ctx. localName a = anc))"
| "matches (TagAttr nm k v) (ctx, n) = (localName n = nm \<and> getAttribute n k = Some v)"

text \<open>\<^verbatim>\<open>querySelectorAll\<close> and \<^verbatim>\<open>querySelector\<close> over the candidates in document order.\<close>

definition selectAll :: "selector \<Rightarrow> located list \<Rightarrow> located list" where
  "selectAll sel cands = filter (matches sel) cands"

definition selectFirst :: "selector \<Rightarrow> located list \<Rightarrow> located option" where
  "selectFirst sel cands = find (matches sel) cands"

text \<open>\<^verbatim>\<open>getElementsByTagNameNS(TEI_NS, name)[0]\<close>.\<close>

definition TEI_NS :: string where
  "TEI_NS = ''http://www.tei-c.org/ns/1.0''"

definition firstByTagNameNS :: "string \<Rightarrow> located list \<Rightarrow> located option" where
  "firstByTagNameNS nm cands = find (\<lambda>(ctx, n). namespaceURI n = TEI_NS \<and> localName n = nm) cands"

text \<open>\<^verbatim>\<open>x.querySelector(name) || x.getElementsByTagNameNS(TEI_NS, name)[0]\<close>.\<close>

definition queryOrNS :: "selector \<Rightarrow> string \<Rightarrow> located list \<Rightarrow> located option" where
  "queryOrNS sel nm cands =
     (case selectFirst sel cands of Some r \<Rightarrow> Some r | None \<Rightarrow> firstByTagNameNS nm cands)"

text \<open>\<^verbatim>\<open>findSibling\<close> (lines 1038 to 1049). It is called for an \<^verbatim>\<open>abbr\<close> element and the name
  \<^verbatim>\<open>expan\<close>, so a child with that name is never the node itself.\<close>

definition findSibling :: "node list \<Rightarrow> string \<Rightarrow> node option" where
  "findSibling ctx nm =
     (case ctx of
        [] \<Rightarrow> None
      | parent # _ \<Rightarrow> find (\<lambda>child. isElement child \<and> localName child = nm) (childNodes parent))"

text \<open>\<^verbatim>\<open>isInsideHeader\<close> (lines 1054 to 1064).\<close>

definition isInsideHeader :: "node list \<Rightarrow> bool" where
  "isInsideHeader ctx = (\<exists>parent \<in> set ctx. localName parent = ''teiHeader'')"

text \<open>\<^verbatim>\<open>getHeadingLevel\<close> (lines 840 to 852).\<close>

definition getHeadingLevel :: "node list \<Rightarrow> nat" where
  "getHeadingLevel ctx = min (2 + length (filter (\<lambda>parent. localName parent = ''div'') ctx)) 6"

text \<open>Sizes, for the termination of the tree walk.\<close>

fun nsize :: "node \<Rightarrow> nat" where
  "nsize (Element ns nm as ks) = Suc (sum_list (map nsize ks))"
| "nsize (Text t) = 1"
| "nsize (CData t) = 1"
| "nsize (Comment t) = 1"
| "nsize (ProcInstr t) = 1"

definition lsize :: "node list \<Rightarrow> nat" where
  "lsize ks = sum_list (map nsize ks)"

lemma subtree_size: "(c, e) \<in> set (subtree ctx n) \<Longrightarrow> nsize e \<le> nsize n"
proof (induction n arbitrary: ctx)
  case (Element ns nm as ks)
  show ?case
  proof (cases "(c, e) = (ctx, Element ns nm as ks)")
    case True
    then show ?thesis by simp
  next
    case False
    with Element.prems obtain k where k: "k \<in> set ks"
      and m: "(c, e) \<in> set (subtree (Element ns nm as ks # ctx) k)"
      by auto
    from Element.IH[OF k m] have "nsize e \<le> nsize k" .
    also from k have "nsize k \<le> sum_list (map nsize ks)"
      by (simp add: member_le_sum_list)
    finally show ?thesis by simp
  qed
qed simp_all

lemma subtree_isElement: "(c, e) \<in> set (subtree ctx n) \<Longrightarrow> isElement e"
  by (induction n arbitrary: ctx) auto

lemma descendants_size:
  assumes "(c, e) \<in> set (descendants ctx n)"
  shows "lsize (childNodes e) < lsize (childNodes n)"
proof -
  from assms obtain k where k: "k \<in> set (childNodes n)"
    and m: "(c, e) \<in> set (subtree (n # ctx) k)"
    by (auto simp: descendants_def)
  from subtree_size[OF m] have "nsize e \<le> nsize k" .
  also from k have "nsize k \<le> lsize (childNodes n)"
    by (simp add: lsize_def member_le_sum_list)
  finally have "nsize e \<le> lsize (childNodes n)" .
  moreover from m have "isElement e"
    by (rule subtree_isElement)
  then have "lsize (childNodes e) < nsize e"
    by (cases e) (simp_all add: lsize_def)
  ultimately show ?thesis by simp
qed

section \<open>Tooltip texts\<close>

subsection \<open>Durations\<close>

definition asciiUpper :: "char \<Rightarrow> char" where
  "asciiUpper c =
     (if 97 \<le> (of_char c :: nat) \<and> (of_char c :: nat) \<le> 122 then char_of ((of_char c :: nat) - 32)
      else c)"

text \<open>
  The line terminators (LF, CR, U+2028, U+2029), which \<^verbatim>\<open>.\<close> in a regular expression does
  not match.
\<close>

fun hasLineTerminator :: "string \<Rightarrow> bool" where
  "hasLineTerminator [] = False"
| "hasLineTerminator (c # cs) =
     (c = CHR 0x0A \<or> c = CHR 0x0D
      \<or> take 3 (c # cs) = [CHR 0xE2, CHR 0x80, CHR 0xA8]
      \<or> take 3 (c # cs) = [CHR 0xE2, CHR 0x80, CHR 0xA9]
      \<or> hasLineTerminator cs)"

text \<open>
  \<^verbatim>\<open>duration.match(/^R(\d*)\/(.+)$/)\<close>: the two groups, \<open>None\<close> when there is no match.
\<close>

definition repeatMatch :: "string \<Rightarrow> (string \<times> string) option" where
  "repeatMatch duration =
     (if duration \<noteq> [] \<and> hd duration = CHR ''R'' then
        let ds = takeWhile isDigit (tl duration);
            r = dropWhile isDigit (tl duration)
        in if r \<noteq> [] \<and> hd r = CHR ''/'' \<and> tl r \<noteq> [] \<and> \<not> hasLineTerminator (tl r)
           then Some (ds, tl r) else None
      else None)"

text \<open>
  One optional group \<^verbatim>\<open>(?:(\d+)L)?\<close> of the second expression, matched without regard to
  case (flag \<^verbatim>\<open>i\<close>): the digits if the group matches at the head of \<open>s\<close>, and the rest.
\<close>

definition component :: "char \<Rightarrow> string \<Rightarrow> string option \<times> string" where
  "component L s =
     (let ds = takeWhile isDigit s; r = dropWhile isDigit s
      in if ds \<noteq> [] \<and> r \<noteq> [] \<and> asciiUpper (hd r) = L then (Some ds, tl r) else (None, s))"

text \<open>
  \<^verbatim>\<open>/^P(?:(\d+)Y)?(?:(\d+)M)?(?:(\d+)W)?(?:(\d+)D)?(?:T(?:(\d+)H)?(?:(\d+)M)?(?:(\d+)S)?)?$/i\<close>:
  the seven groups. A group can only match where nothing later in the expression can,
  so the match is found without backtracking.
\<close>

definition durationMatch :: "string \<Rightarrow> string option list option" where
  "durationMatch duration =
     (if duration \<noteq> [] \<and> asciiUpper (hd duration) = CHR ''P'' then
        let (y, r1) = component CHR ''Y'' (tl duration);
            (mo, r2) = component CHR ''M'' r1;
            (w, r3) = component CHR ''W'' r2;
            (d, r4) = component CHR ''D'' r3
        in if r4 \<noteq> [] \<and> asciiUpper (hd r4) = CHR ''T'' then
             let (hr, r5) = component CHR ''H'' (tl r4);
                 (mi, r6) = component CHR ''M'' r5;
                 (se, r7) = component CHR ''S'' r6
             in if r7 = [] then Some [y, mo, w, d, hr, mi, se] else None
           else if r4 = [] then Some [y, mo, w, d, None, None, None]
           else None
      else None)"

text \<open>\<^verbatim>\<open>parseInt(g || '0', 10)\<close> for a group of digits.\<close>

definition groupValue :: "string option \<Rightarrow> nat" where
  "groupValue g = (case g of None \<Rightarrow> 0 | Some ds \<Rightarrow> digitsVal ds)"

text \<open>One line \<^verbatim>\<open>if (n) parts.push(`${n} unit${n === 1 ? '' : plural}`)\<close>.\<close>

definition unitPart :: "host \<Rightarrow> nat \<Rightarrow> string \<Rightarrow> string \<Rightarrow> string list" where
  "unitPart h n unit plural =
     (if n \<noteq> 0 then [numberText h (Some (int n)) @ '' '' @ unit @ (if n = 1 then [] else plural)]
      else [])"

lemma repeatMatch_shorter: "repeatMatch d = Some (c, r) \<Longrightarrow> length r < length d"
proof -
  assume a: "repeatMatch d = Some (c, r)"
  then have d: "d \<noteq> []" and r: "r = tl (dropWhile isDigit (tl d))" and n: "dropWhile isDigit (tl d) \<noteq> []"
    by (auto simp: repeatMatch_def Let_def split: if_splits)
  have "length (dropWhile isDigit (tl d)) \<le> length (tl d)"
    by (rule length_dropWhile_le)
  with n r have "length r < length (tl d)" by (cases "dropWhile isDigit (tl d)") simp_all
  with d show ?thesis by (cases d) simp_all
qed

text \<open>\<^verbatim>\<open>formatIsoDuration\<close> (lines 997 to 1033).\<close>

function formatIsoDuration :: "host \<Rightarrow> string \<Rightarrow> string" where
  "formatIsoDuration h duration =
     (if duration = [] then []
      else
        (case repeatMatch duration of
           Some (repeatCount, rest) \<Rightarrow>
             let repeated = formatIsoDuration h rest
             in if repeatCount \<noteq> [] then
                  repeatCount @ times_sign @ '' wiederholt ('' @ repeated @ '')''
                else ''wiederholt ('' @ repeated @ '')''
         | None \<Rightarrow>
             (case durationMatch duration of
                None \<Rightarrow> duration
              | Some g \<Rightarrow>
                  let parts =
                        unitPart h (groupValue (g ! 0)) ''Jahr'' ''e''
                        @ unitPart h (groupValue (g ! 1)) ''Monat'' ''e''
                        @ unitPart h (groupValue (g ! 2)) ''Woche'' ''n''
                        @ unitPart h (groupValue (g ! 3)) ''Tag'' ''e''
                        @ unitPart h (groupValue (g ! 4)) ''Stunde'' ''n''
                        @ unitPart h (groupValue (g ! 5)) ''Minute'' ''n''
                        @ unitPart h (groupValue (g ! 6)) ''Sekunde'' ''n''
                  in if length parts \<noteq> 0 then join '' '' parts else duration)))"
  by pat_completeness auto
termination
  by (relation "measure (\<lambda>(h, d). length d)") (auto simp: repeatMatch_shorter)

declare formatIsoDuration.simps [simp del]

subsection \<open>Dates\<close>

text \<open>\<^verbatim>\<open>parts.push(x)\<close> under \<^verbatim>\<open>if (v)\<close>, for a string \<open>v\<close>.\<close>

definition pushIf :: "string \<Rightarrow> string \<Rightarrow> string list" where
  "pushIf v x = (if v \<noteq> [] then [x] else [])"

text \<open>\<^verbatim>\<open>buildDateTooltip\<close> (lines 946 to 992).\<close>

definition buildDateTooltip :: "host \<Rightarrow> node \<Rightarrow> string" where
  "buildDateTooltip h node =
     (let when = orEmpty (getAttribute node ''when'');
          from = orEmpty (getAttribute node ''from'');
          to = orEmpty (getAttribute node ''to'');
          notBefore = orEmpty (getAttribute node ''notBefore'');
          notAfter = orEmpty (getAttribute node ''notAfter'');
          calendar = orEmpty (getAttribute node ''calendar'');
          type = orEmpty (getAttribute node ''type'');
          period = orEmpty (getAttribute node ''period'');
          durIso = orEmpty (orElse (getAttribute node ''dur-iso'') (getAttribute node ''dur''));
          phrase =
            (if when \<noteq> [] then [formatDate h when]
             else if from \<noteq> [] \<and> to \<noteq> [] then [formatDate h from @ '' - '' @ formatDate h to]
             else if from \<noteq> [] then [''ab '' @ formatDate h from]
             else if to \<noteq> [] then [''bis '' @ formatDate h to]
             else if notBefore \<noteq> [] \<and> notAfter \<noteq> [] then
               [''zwischen '' @ formatDate h notBefore @ '' und '' @ formatDate h notAfter]
             else if notBefore \<noteq> [] then [''nicht vor '' @ formatDate h notBefore]
             else if notAfter \<noteq> [] then [''nicht nach '' @ formatDate h notAfter]
             else []);
          parts = phrase
            @ pushIf calendar (''Kalender: '' @ calendar)
            @ pushIf type (''Typ: '' @ type)
            @ pushIf period (''Periode: '' @ period)
            @ pushIf durIso (''Dauer: '' @ formatIsoDuration h durIso)
      in join '' | '' parts)"

subsection \<open>Attributes\<close>

text \<open>
  \<^verbatim>\<open>buildAttributeTooltip\<close> (lines 928 to 941), with the label map of its one caller (the
  \<^verbatim>\<open>hi\<close> case). The label is read from an object literal, so an attribute named like a
  property of \<^verbatim>\<open>Object.prototype\<close> gets the text of that property as its label.
\<close>

definition hiLabels :: "(string \<times> string) list" where
  "hiLabels = [(''rend'', ''Darstellung''), (''hand'', ''Hand''), (''type'', ''Typ'')]"

text \<open>\<^verbatim>\<open>obj[k] || k\<close> inside a template literal.\<close>

definition lookupOr :: "host \<Rightarrow> (string \<times> string) list \<Rightarrow> string \<Rightarrow> string" where
  "lookupOr h obj k =
     (case objectGet h obj k of Some v \<Rightarrow> valText h v | None \<Rightarrow> k)"

definition buildAttributeTooltip :: "host \<Rightarrow> node \<Rightarrow> (string \<times> string) list \<Rightarrow> string" where
  "buildAttributeTooltip h node labelMap =
     (if length (attributes node) = 0 then []
      else
        let parts = concat (map (\<lambda>(k, v). if v = [] then [] else [lookupOr h labelMap k @ '': '' @ v])
                      (attributes node))
        in join '' | '' parts)"

section \<open>Transform engine\<close>

subsection \<open>The state of the module\<close>

text \<open>
  The variables of the module closure (lines 14 to 25). Every function that reads or
  writes them takes the state and returns the new one.
\<close>

record footnote =
  number :: nat
  content :: string

record state =
  normalizedMode :: bool
  footnoteCounter :: nat
  footnotes :: "footnote list"
  persons :: "entity list"
  places :: "entity list"
  organizations :: "entity list"
  terms :: "entity list"

text \<open>\<^verbatim>\<open>addFootnote\<close> (lines 799 to 805).\<close>

definition addFootnote :: "string \<Rightarrow> state \<Rightarrow> state" where
  "addFootnote text s =
     s\<lparr> footnoteCounter := footnoteCounter s + 1,
        footnotes := footnotes s @ [\<lparr> number = footnoteCounter s + 1, content = text \<rparr>] \<rparr>"

text \<open>
  The counter inside a template literal. It is printed in decimal; a counter of \<open>2^53\<close>
  or more, where a double is no longer exact, is out of reach of any document.
\<close>

definition counterText :: "state \<Rightarrow> string" where
  "counterText s = showNat (footnoteCounter s)"

subsection \<open>Elements with a side effect\<close>

definition typeLabels :: "(string \<times> string) list" where
  "typeLabels = [(''person'', ''Person''), (''place'', ''Ort''),
                 (''organization'', ''Organisation''), (''term'', ''Begriff'')]"

text \<open>The \<^verbatim>\<open>switch (type)\<close> of lines 677 to 690.\<close>

definition pushEntity :: "string \<Rightarrow> entity \<Rightarrow> state \<Rightarrow> state" where
  "pushEntity type e s =
     (if type = ''person'' then s\<lparr> persons := persons s @ [e] \<rparr>
      else if type = ''place'' then s\<lparr> places := places s @ [e] \<rparr>
      else if type = ''organization'' then s\<lparr> organizations := organizations s @ [e] \<rparr>
      else if type = ''term'' then s\<lparr> terms := terms s @ [e] \<rparr>
      else s)"

text \<open>The register entry of a semantic element (lines 671 to 676).\<close>

definition entityOf :: "node \<Rightarrow> entity" where
  "entityOf node =
     \<lparr> name = trim (textContent node),
       ref = orEmpty (getAttribute node ''ref''),
       role = orEmpty (getAttribute node ''role'') \<rparr>"

text \<open>\<^verbatim>\<open>transformSemanticElement\<close> (lines 670 to 716).\<close>

definition transformSemanticElement ::
  "host \<Rightarrow> node \<Rightarrow> string \<Rightarrow> string \<Rightarrow> state \<Rightarrow> string \<times> state" where
  \<open>transformSemanticElement h node type children s =
     (let ref = orEmpty (getAttribute node ''ref'');
          role = orEmpty (getAttribute node ''role'');
          s1 = pushEntity type (entityOf node) s;
          tooltipParts = [lookupOr h typeLabels type]
            @ pushIf ref (''Ref: '' @ ref)
            @ pushIf role (''Rolle: '' @ role);
          tooltip = join '' | '' tooltipParts
      in (''<span class="semantic '' @ type @ ''" data-tooltip="'' @ escapeAttr tooltip
            @ ''" data-tooltip-type="'' @ type @ ''" data-ref="'' @ escapeAttr ref @ ''">''
            @ children @ ''</span>'',
          s1))\<close>

text \<open>\<^verbatim>\<open>transformNote\<close> (lines 782 to 794).\<close>

definition transformNote :: "node \<Rightarrow> string \<Rightarrow> state \<Rightarrow> string \<times> state" where
  \<open>transformNote node children s =
     (let notePlace = orEmpty (getAttribute node ''place'')
      in if notePlace = ''margin'' \<or> notePlace = ''left'' \<or> notePlace = ''right'' then
           (''<span class="tei-note-margin text-critical" data-tooltip="'' @ escapeAttr children
              @ ''" data-tooltip-type="note">[*]</span>'',
            s)
         else
           let s1 = addFootnote children s
           in (''<span class="footnote-ref" data-footnote="'' @ counterText s1 @ ''">''
                 @ counterText s1 @ ''</span>'',
               s1))\<close>

text \<open>The case \<^verbatim>\<open>handShift\<close> (lines 645 to 648).\<close>

definition handShift :: "node \<Rightarrow> state \<Rightarrow> string \<times> state" where
  \<open>handShift node s =
     (let newHand = orEmpty (getAttribute node ''new'');
          s1 = addFootnote (''Handwechsel'' @ (if newHand \<noteq> [] then '': '' @ newHand else [])) s
      in (''<span class="footnote-ref">'' @ counterText s1 @ ''</span>'', s1))\<close>

subsection \<open>Elements without a side effect\<close>

text \<open>
  The cases of the \<^verbatim>\<open>switch\<close> in \<^verbatim>\<open>transformNode\<close> (lines 354 to 653) that only build HTML
  from the element, its place in the tree, the mode flag and the transformed children.
  The case labels are distinct strings, so the order of the tests does not matter; they
  are in the order of the source.
\<close>

definition elementHTML :: "host \<Rightarrow> node list \<Rightarrow> bool \<Rightarrow> node \<Rightarrow> string \<Rightarrow> string" where
  \<open>elementHTML h ctx normalized node children =
     (let nm = localName node; attr = (\<lambda>k. orEmpty (getAttribute node k)) in
      if nm = ''body'' then ''<div class="body">'' @ children @ ''</div>''
      else if nm = ''div'' then ''<div class="tei-div">'' @ children @ ''</div>''
      else if nm = ''p'' then ''<p class="tei-p">'' @ children @ ''</p>''
      else if nm = ''ab'' then
        (let place = attr ''place'';
             abType = toLowerCase h (attr ''type'');
             abClass = (if place \<noteq> [] then ''tei-ab tei-ab1'' else ''tei-ab'');
             abPrefix =
               (if abType = ''dorsal'' then
                  let dorsalN = attr ''n'';
                      dorsalLabel = (if dorsalN \<noteq> [] then ''S. '' @ dorsalN else ''verso'')
                  in ''<span class="pb-marker tei-ab-dorsal-marker" data-tooltip="Verso-Angabe" data-tooltip-type="page">[''
                       @ escapeHTML dorsalLabel @ '']</span> ''
                else [])
         in ''<div class="'' @ abClass @ ''">'' @ abPrefix @ children @ ''</div>'')
      else if nm = ''head'' then
        (if attr ''type'' = ''subtitle'' then
           ''<h2 class="tei-head-subtitle">'' @ children @ ''</h2>''
         else
           let level = showNat (getHeadingLevel ctx)
           in ''<h'' @ level @ '' class="tei-head'' @ level @ ''">'' @ children @ ''</h'' @ level @ ''>'')
      else if nm = ''lb'' then
        (if normalized then []
         else if getAttribute node ''break'' = Some ''no'' then ''-<br>''
         else ''<br>'')
      else if nm = ''pb'' then
        (let n = attr ''n'';
             facs = attr ''facs'';
             pageLabel = (if n \<noteq> [] then ''S. '' @ n else []);
             tooltip = (if facs \<noteq> [] then
                          ''data-tooltip="Faksimile: '' @ facs @ ''" data-tooltip-type="page"''
                        else [])
         in ''<span class="pb-marker" '' @ tooltip @ ''>['' @ pageLabel @ '']</span>'')
      else if nm = ''cb'' then ''<span class="column-break"> | </span>''
      else if nm = ''sic'' then
        ''<span class="tei-sic text-critical" data-tooltip="So im Original" data-tooltip-type="textcritical">''
          @ children @ ''</span>''
      else if nm = ''corr'' then ''<span class="tei-corr">'' @ children @ ''</span>''
      else if nm = ''abbr'' then
        (let expanText = (case findSibling ctx ''expan'' of
                            Some expansion \<Rightarrow> textContent expansion | None \<Rightarrow> []);
             abbrTooltip = (if expanText \<noteq> [] then
                              ''data-tooltip="'' @ escapeAttr expanText @ ''" data-tooltip-type="abbr"''
                            else [])
         in ''<span class="tei-abbr text-critical" '' @ abbrTooltip @ ''>'' @ children @ ''</span>'')
      else if nm = ''expan'' then []
      else if nm = ''orig'' then ''<span class="tei-orig">'' @ children @ ''</span>''
      else if nm = ''reg'' then []
      else if nm = ''add'' then
        (let addPlace = (if attr ''place'' \<noteq> [] then attr ''place'' else ''unbekannt'');
             addHand = attr ''hand'';
             addInfo = ''Hinzuf'' @ u_uml @ ''gung ('' @ addPlace @ '')''
               @ (if addHand \<noteq> [] then '' von '' @ addHand else [])
         in ''<span class="tei-add text-critical" data-tooltip="'' @ escapeAttr addInfo
              @ ''" data-tooltip-type="textcritical">'' @ children @ ''</span>'')
      else if nm = ''del'' then
        (let delRend = (if attr ''rend'' \<noteq> [] then attr ''rend'' else ''durchgestrichen'')
         in ''<span class="tei-del text-critical" data-tooltip="Gestrichen: '' @ delRend
              @ ''" data-tooltip-type="textcritical">'' @ children @ ''</span>'')
      else if nm = ''subst'' then
        ''<span class="tei-subst text-critical" data-tooltip="Ersetzung" data-tooltip-type="textcritical">''
          @ children @ ''</span>''
      else if nm = ''supplied'' then
        (let suppliedSource = orEmpty (orElse (getAttribute node ''source'') (getAttribute node ''resp''));
             suppliedReason = attr ''reason'';
             suppliedInfo = ''Erg'' @ a_uml @ ''nzung''
               @ (if suppliedReason \<noteq> [] then '': '' @ suppliedReason else [])
               @ (if suppliedSource \<noteq> [] then '' ('' @ suppliedSource @ '')'' else [])
         in ''<span class="tei-supplied text-critical" data-tooltip="'' @ escapeAttr suppliedInfo
              @ ''" data-tooltip-type="textcritical">'' @ children @ ''</span>'')
      else if nm = ''unclear'' then
        (let unclearReason = (if attr ''reason'' \<noteq> [] then attr ''reason'' else ''unsichere Lesung'')
         in ''<span class="tei-unclear text-critical" data-tooltip="'' @ escapeAttr unclearReason
              @ ''" data-tooltip-type="textcritical">'' @ children @ ''</span>'')
      else if nm = ''gap'' then
        (let gapReason = attr ''reason'';
             gapUnit = attr ''unit'';
             gapQuantity = attr ''quantity'';
             gapInfo = ''L'' @ u_uml @ ''cke''
               @ (if gapReason \<noteq> [] then '': '' @ gapReason else [])
               @ (if gapQuantity \<noteq> [] \<and> gapUnit \<noteq> [] then
                    '' ('' @ gapQuantity @ '' '' @ gapUnit @ '')''
                  else [])
         in ''<span class="tei-gap text-critical" data-tooltip="'' @ escapeAttr gapInfo
              @ ''" data-tooltip-type="textcritical"></span>'')
      else if nm = ''damage'' then
        (let damageAgent = (if attr ''agent'' \<noteq> [] then attr ''agent''
                            else ''Besch'' @ a_uml @ ''digung'')
         in ''<span class="tei-damage text-critical" data-tooltip="'' @ escapeAttr damageAgent
              @ ''" data-tooltip-type="textcritical">'' @ children @ ''</span>'')
      else if nm = ''space'' then
        (let spaceUnit = attr ''unit'';
             spaceQuantity = attr ''quantity'';
             spaceInfo = (if spaceQuantity \<noteq> [] \<and> spaceUnit \<noteq> [] then
                            ''Leerraum: '' @ spaceQuantity @ '' '' @ spaceUnit
                          else ''Leerraum'')
         in ''<span class="tei-space text-critical" data-tooltip="'' @ escapeAttr spaceInfo
              @ ''" data-tooltip-type="textcritical"></span>'')
      else if nm = ''lem'' then ''<span class="tei-lem">'' @ children @ ''</span>''
      else if nm = ''rdg'' then []
      else if nm = ''q'' \<or> nm = ''quote'' then ''<span class="tei-q">'' @ children @ ''</span>''
      else if nm = ''hi'' then
        (let rend = attr ''rend'';
             hiClass = getRenditionClass h rend;
             hiTooltip = buildAttributeTooltip h node hiLabels;
             hiClasses = (if hiTooltip \<noteq> [] then hiClass @ '' tei-hi-annotated'' else hiClass);
             hiTooltipAttr = (if hiTooltip \<noteq> [] then
                                '' data-tooltip="'' @ escapeAttr hiTooltip
                                  @ ''" data-tooltip-type="textcritical"''
                              else [])
         in ''<span class="'' @ hiClasses @ ''"'' @ hiTooltipAttr @ ''>'' @ children @ ''</span>'')
      else if nm = ''foreign'' then
        (let lang = orEmpty (orElse (getAttribute node ''xml:lang'') (getAttribute node ''lang''))
         in ''<span class="tei-foreign" data-lang="'' @ lang @ ''">'' @ children @ ''</span>'')
      else if nm = ''ref'' then
        (let target = attr ''target''
         in if startsWith target ''http'' then
              ''<a href="'' @ escapeAttr target @ ''" target="_blank" rel="noopener" class="ref-link">''
                @ children @ ''</a>''
            else ''<span class="tei-ref">'' @ children @ ''</span>'')
      else if nm = ''bibl'' then
        (if attr ''type'' = ''url'' then
           let url = trim (textContent node)
           in ''<a href="'' @ escapeAttr url @ ''" target="_blank" rel="noopener" class="bibl-link">''
                @ children @ ''</a>''
         else ''<span class="tei-bibl">'' @ children @ ''</span>'')
      else if nm = ''figure'' then
        (let figType = (if attr ''type'' \<noteq> [] then attr ''type'' else ''Abbildung'')
         in ''<span class="tei-figure" data-tooltip="Abbildung: '' @ escapeAttr figType
              @ ''" data-tooltip-type="figure">['' @ figType @ '']</span>'')
      else if nm = ''figDesc'' then ''<span class="tei-figDesc">'' @ children @ ''</span>''
      else if nm = ''date'' then
        (let dateInfo = buildDateTooltip h node
         in if dateInfo \<noteq> [] then
              ''<span class="tei-date text-critical" data-tooltip="'' @ escapeAttr dateInfo
                @ ''" data-tooltip-type="date">'' @ children @ ''</span>''
            else ''<span class="tei-date">'' @ children @ ''</span>'')
      else if nm = ''origDate'' then ''<span class="tei-origDate">'' @ children @ ''</span>''
      else if nm = ''time'' then
        (let timeWhen = attr ''when''
         in if timeWhen \<noteq> [] then
              ''<span class="tei-time text-critical" data-tooltip="'' @ escapeAttr timeWhen
                @ ''" data-tooltip-type="time">'' @ children @ ''</span>''
            else ''<span class="tei-time">'' @ children @ ''</span>'')
      else if nm = ''measure'' then
        (let measType = attr ''type'';
             measUnit = attr ''unit'';
             measQuantity = attr ''quantity'';
             measCommodity = attr ''commodity'';
             measInfo = pushIf measQuantity measQuantity
               @ pushIf measUnit measUnit
               @ pushIf measCommodity measCommodity
               @ pushIf measType (''('' @ measType @ '')'');
             measTooltip = (if length measInfo \<noteq> 0 then join '' '' measInfo else [])
         in if measTooltip \<noteq> [] then
              ''<span class="tei-measure text-critical" data-tooltip="'' @ escapeAttr measTooltip
                @ ''" data-tooltip-type="measure">'' @ children @ ''</span>''
            else ''<span class="tei-measure">'' @ children @ ''</span>'')
      else if nm = ''num'' then
        (let numValue = attr ''value''
         in if numValue \<noteq> [] then
              ''<span class="tei-num text-critical" data-tooltip="Wert: '' @ escapeAttr numValue
                @ ''" data-tooltip-type="num">'' @ children @ ''</span>''
            else ''<span class="tei-num">'' @ children @ ''</span>'')
      else if nm = ''signed'' then ''<div class="tei-signed">[Unterzeichnet:] '' @ children @ ''</div>''
      else if nm = ''table'' then ''<table class="tei-table">'' @ children @ ''</table>''
      else if nm = ''row'' then
        (let rowClass = (if attr ''role'' = ''label'' then ''tei-row tei-row1'' else ''tei-row'')
         in ''<tr class="'' @ rowClass @ ''">'' @ children @ ''</tr>'')
      else if nm = ''cell'' then
        (let cellRole = (case ctx of [] \<Rightarrow> [] | parent # _ \<Rightarrow> orEmpty (getAttribute parent ''role''));
             cellTag = (if cellRole = ''label'' then ''th'' else ''td'')
         in ''<'' @ cellTag @ '' class="tei-cell">'' @ children @ ''</'' @ cellTag @ ''>'')
      else if nm = ''list'' then
        (let listTag = (if attr ''type'' = ''ordered'' then ''ol'' else ''ul'')
         in ''<'' @ listTag @ '' class="tei-list">'' @ children @ ''</'' @ listTag @ ''>'')
      else if nm = ''item'' then ''<li class="tei-item">'' @ children @ ''</li>''
      else if nm = ''label'' then
        (let labelClass = (if attr ''type'' = ''keyword'' then ''tei-label tei-label1'' else ''tei-label'')
         in ''<span class="'' @ labelClass @ ''">'' @ children @ ''</span>'')
      else if nm = ''seg'' then
        (if normalized then
           let segN = attr ''n'';
               segLabel = (if segN \<noteq> [] then
                             ''<span class="tei-seg-label">['' @ escapeHTML segN @ '']</span> ''
                           else [])
           in ''<span class="tei-seg tei-seg-normalized">'' @ segLabel @ children @ ''</span>''
         else ''<span class="tei-seg">'' @ children @ ''</span>'')
      else children)\<close>

text \<open>
  The cases of the \<^verbatim>\<open>switch\<close> that do not walk the tree again: the six with a side effect,
  and \<open>elementHTML\<close> for the rest.
\<close>

definition handleElement ::
  "host \<Rightarrow> node list \<Rightarrow> node \<Rightarrow> string \<Rightarrow> state \<Rightarrow> string \<times> state" where
  "handleElement h ctx node children s =
     (let nm = localName node in
      if nm = ''persName'' then transformSemanticElement h node ''person'' children s
      else if nm = ''placeName'' \<or> nm = ''origPlace'' then
        transformSemanticElement h node ''place'' children s
      else if nm = ''orgName'' then transformSemanticElement h node ''organization'' children s
      else if nm = ''term'' then
        (if isInsideHeader ctx then (children, s)
         else transformSemanticElement h node ''term'' children s)
      else if nm = ''note'' then transformNote node children s
      else if nm = ''handShift'' then handShift node s
      else (elementHTML h ctx (normalizedMode s) node children, s))"

subsection \<open>The tree walk\<close>

text \<open>\<^verbatim>\<open>node.querySelector(name) || node.getElementsByTagNameNS(TEI_NS, name)[0]\<close> on an element.\<close>

definition queryIn :: "string \<Rightarrow> node list \<Rightarrow> node \<Rightarrow> located option" where
  "queryIn nm ctx node = queryOrNS (Tag nm) nm (descendants ctx node)"

text \<open>The tooltip of \<^verbatim>\<open>transformApp\<close> (lines 760 to 769).\<close>

definition appTooltip :: "node list \<Rightarrow> node \<Rightarrow> string" where
  "appTooltip ctx node =
     (let rdgs = selectAll (Tag ''rdg'') (descendants ctx node);
          rdgTexts = map (\<lambda>(c, rdg).
                       let wit = orEmpty (getAttribute rdg ''wit'');
                           text = trim (textContent rdg)
                       in if wit \<noteq> [] then wit @ '': '' @ text else text) rdgs
      in if length rdgTexts \<noteq> 0 then ''Varianten: '' @ join ''; '' rdgTexts else [])"

lemma find_mem: "find P xs = Some x \<Longrightarrow> x \<in> set xs"
  by (induction xs) (auto split: if_splits)

lemma queryIn_size:
  assumes "queryIn nm ctx node = Some (c, e)"
  shows "lsize (childNodes e) < lsize (childNodes node)"
proof -
  from assms have "(c, e) \<in> set (descendants ctx node)"
    by (auto simp: queryIn_def queryOrNS_def selectFirst_def firstByTagNameNS_def
        split: option.splits dest: find_mem)
  then show ?thesis by (rule descendants_size)
qed

lemma childNodes_size: "lsize (childNodes n) < nsize n"
  by (cases n) (simp_all add: lsize_def)

lemma query_measure:
  assumes "queryIn nm ctx node \<noteq> None"
  shows "Suc (3 * lsize (childNodes (snd (the (queryIn nm ctx node))))) < 3 * nsize node - Suc 0"
proof -
  from assms obtain c e where q: "queryIn nm ctx node = Some (c, e)" by auto
  from queryIn_size[OF q] childNodes_size[of node] q show ?thesis by simp
qed

lemma children_measure: "Suc (3 * lsize (childNodes node)) < 3 * nsize node - Suc 0"
  using childNodes_size[of node] by simp

text \<open>
  \<^verbatim>\<open>transformNode\<close> (lines 342 to 654), \<^verbatim>\<open>transformChildren\<close> (lines 659 to 665),
  \<^verbatim>\<open>transformChoice\<close> (lines 721 to 753) and \<^verbatim>\<open>transformApp\<close> (lines 758 to 777). The
  second argument is the chain of ancestor elements: of the node for \<open>transformNode\<close>,
  \<open>transformChoice\<close> and \<open>transformApp\<close>, of the children for \<open>transformChildren\<close>.
\<close>

function transformNode :: "host \<Rightarrow> node list \<Rightarrow> node \<Rightarrow> state \<Rightarrow> string \<times> state"
  and transformChildren :: "host \<Rightarrow> node list \<Rightarrow> node list \<Rightarrow> state \<Rightarrow> string \<times> state"
  and transformChoice :: "host \<Rightarrow> node list \<Rightarrow> node \<Rightarrow> state \<Rightarrow> string \<times> state"
  and transformApp :: "host \<Rightarrow> node list \<Rightarrow> node \<Rightarrow> string \<Rightarrow> state \<Rightarrow> string \<times> state"
where
  "transformNode h ctx (Text t) s = (escapeHTML t, s)"
| "transformNode h ctx (CData t) s = ([], s)"
| "transformNode h ctx (Comment t) s = ([], s)"
| "transformNode h ctx (ProcInstr t) s = ([], s)"
| "transformNode h ctx (Element ns nm as ks) s =
     (let node = Element ns nm as ks;
          (children, s1) = transformChildren h (node # ctx) ks s
      in if nm = ''choice'' then transformChoice h ctx node s1
         else if nm = ''app'' then transformApp h ctx node children s1
         else handleElement h ctx node children s1)"
| "transformChildren h ctx [] s = ([], s)"
| "transformChildren h ctx (child # rest) s =
     (let (r1, s1) = transformNode h ctx child s;
          (r2, s2) = transformChildren h ctx rest s1
      in (r1 @ r2, s2))"
| \<open>transformChoice h ctx node s =
     (let sic = queryIn ''sic'' ctx node;
          corr = queryIn ''corr'' ctx node;
          abbr = queryIn ''abbr'' ctx node;
          expan = queryIn ''expan'' ctx node;
          orig = queryIn ''orig'' ctx node;
          reg = queryIn ''reg'' ctx node
      in if sic \<noteq> None \<and> corr \<noteq> None then
           let (sicText, s1) = transformChildren h (snd (the sic) # fst (the sic))
                                 (childNodes (snd (the sic))) s;
               corrText = trim (textContent (snd (the corr)))
           in (''<span class="text-critical" data-tooltip="Korrektur: '' @ escapeAttr corrText
                 @ ''" data-tooltip-type="textcritical">'' @ sicText @ ''</span>'',
               s1)
         else if abbr \<noteq> None \<and> expan \<noteq> None then
           let (abbrText, s1) = transformChildren h (snd (the abbr) # fst (the abbr))
                                  (childNodes (snd (the abbr))) s;
               expanText = trim (textContent (snd (the expan)))
           in (''<span class="tei-abbr text-critical" data-tooltip="'' @ escapeAttr expanText
                 @ ''" data-tooltip-type="abbr">'' @ abbrText @ ''</span>'',
               s1)
         else if orig \<noteq> None \<and> reg \<noteq> None then
           let (origText, s1) = transformChildren h (snd (the orig) # fst (the orig))
                                  (childNodes (snd (the orig))) s;
               regText = trim (textContent (snd (the reg)))
           in (''<span class="text-critical" data-tooltip="Normalisiert: '' @ escapeAttr regText
                 @ ''" data-tooltip-type="textcritical">'' @ origText @ ''</span>'',
               s1)
         else transformChildren h (node # ctx) (childNodes node) s)\<close>
| \<open>transformApp h ctx node children s =
     (let lem = queryIn ''lem'' ctx node;
          tooltip = appTooltip ctx node;
          (lemText, s1) =
            (if lem \<noteq> None then
               transformChildren h (snd (the lem) # fst (the lem)) (childNodes (snd (the lem))) s
             else (children, s))
      in if tooltip \<noteq> [] then
           (''<span class="text-critical" data-tooltip="'' @ escapeAttr tooltip
              @ ''" data-tooltip-type="apparatus">'' @ lemText @ ''</span>'',
            s1)
         else (''<span class="tei-app">'' @ lemText @ ''</span>'', s1))\<close>
  by pat_completeness auto

termination
proof (relation "measure (\<lambda>x. case x of
    Inl (Inl (h, ctx, n, s)) \<Rightarrow> 3 * nsize n
  | Inl (Inr (h, ctx, ks, s)) \<Rightarrow> 3 * lsize ks + 1
  | Inr (Inl (h, ctx, n, s)) \<Rightarrow> 3 * nsize n - 1
  | Inr (Inr (h, ctx, n, ch, s)) \<Rightarrow> 3 * nsize n - 1)", goal_cases)
  case 1
  then show ?case by simp
next
  case 2
  then show ?case by (simp add: lsize_def)
next
  case 3
  then show ?case by simp
next
  case 4
  then show ?case by simp
next
  case 5
  then show ?case by (simp add: lsize_def)
next
  case (6 h ctx child rest s)
  then show ?case by (cases child) (simp_all add: lsize_def)
next
  case 7
  then show ?case by (simp add: query_measure)
next
  case 8
  then show ?case by (simp add: query_measure)
next
  case 9
  then show ?case by (simp add: query_measure)
next
  case 10
  then show ?case by (simp add: children_measure)
next
  case 11
  then show ?case by (simp add: query_measure)
qed

declare transformChoice.simps [simp del]
declare transformApp.simps [simp del]

subsection \<open>Back matter and header\<close>

text \<open>Threading the state through a loop that collects the transformed children of each node.\<close>

fun transformEach :: "host \<Rightarrow> located list \<Rightarrow> state \<Rightarrow> string list \<times> state" where
  "transformEach h [] s = ([], s)"
| "transformEach h ((c, p) # ps) s =
     (let (item, s1) = transformChildren h (p # c) (childNodes p) s;
          (items, s2) = transformEach h ps s1
      in (item # items, s2))"

text \<open>\<^verbatim>\<open>transformBackMatter\<close> (lines 810 to 835), for the \<^verbatim>\<open>back\<close> element and its ancestors.\<close>

definition transformBackMatter :: "host \<Rightarrow> node list \<Rightarrow> node \<Rightarrow> state \<Rightarrow> string \<times> state" where
  \<open>transformBackMatter h ctx backNode s =
     (let divs = selectAll (Tag ''div'') (descendants ctx backNode);
          ps = concat (map (\<lambda>(c, d). selectAll (Tag ''p'') (descendants c d)) divs);
          (items, s1) = transformEach h ps s;
          html = ''<h3>Kommentar</h3>''
      in if length items > 1 then
           (html @ concat (map (\<lambda>item. ''<p>'' @ item @ ''</p>'') items), s1)
         else if length items = 1 then
           (html @ ''<p>'' @ items ! 0 @ ''</p>'', s1)
         else
           let (r, s2) = transformChildren h (backNode # ctx) (childNodes backNode) s1
           in (html @ r, s2))\<close>

text \<open>The \<^verbatim>\<open>teiHeader\<close> element of the document (lines 114, 266 and 285).\<close>

definition findHeader :: "node list \<Rightarrow> located option" where
  "findHeader xmlDoc = queryOrNS (Tag ''teiHeader'') ''teiHeader'' (docElements xmlDoc)"

text \<open>\<^verbatim>\<open>extractSummary\<close> (lines 265 to 279).\<close>

definition extractSummary :: "host \<Rightarrow> node list \<Rightarrow> state \<Rightarrow> string \<times> state" where
  "extractSummary h xmlDoc s =
     (case findHeader xmlDoc of
        None \<Rightarrow> ([], s)
      | Some (hc, header) \<Rightarrow>
          (case queryOrNS (Tag ''summary'') ''summary'' (descendants hc header) of
             None \<Rightarrow> ([], s)
           | Some (c, summary) \<Rightarrow>
               let (r, s1) = transformChildren h (summary # c) (childNodes summary) s;
                   summaryHtml = trim r
               in if summaryHtml \<noteq> [] then (summaryHtml, s1)
                  else
                    let summaryText = trim (textContent summary)
                    in (if summaryText \<noteq> [] then escapeHTML summaryText else [], s1)))"

text \<open>
  The metadata object of \<^verbatim>\<open>extractMetadata\<close> (lines 117 to 132). A keyword is the pair of
  its \<^verbatim>\<open>text\<close> and \<^verbatim>\<open>ref\<close>, an editor the pair of \<^verbatim>\<open>name\<close> and \<^verbatim>\<open>role\<close>; \<open>idnoSource\<close> is set
  only when an \<^verbatim>\<open>idno\<close> element is found; \<open>keywordList\<close> is the field \<^verbatim>\<open>keywords\<close>.
\<close>

record metadata =
  title :: string
  idno :: string
  idnoSource :: "string option"
  date :: string
  dateText :: string
  keywordList :: "(string \<times> string) list"
  textLang :: string
  filiation :: string
  filiationOriginal :: string
  edition :: string
  material :: string
  dimensions :: string
  condition :: string
  seals :: "string list"
  editors :: "(string \<times> string) list"

text \<open>\<^verbatim>\<open>x ? x.textContent.trim() : ''\<close> for an element that was looked up.\<close>

definition trimmedText :: "located option \<Rightarrow> string" where
  "trimmedText x = (case x of None \<Rightarrow> [] | Some (c, n) \<Rightarrow> trim (textContent n))"

text \<open>\<^verbatim>\<open>a || b\<close> for two strings.\<close>

definition strOr :: "string \<Rightarrow> string \<Rightarrow> string" where
  "strOr a b = (if a \<noteq> [] then a else b)"

text \<open>The text for \<^verbatim>\<open>filiation[type="original"]\<close> (lines 176 to 198).\<close>

definition filiationOriginalText :: "host \<Rightarrow> located list \<Rightarrow> string" where
  "filiationOriginalText h H =
     (case selectFirst (TagAttr ''filiation'' ''type'' ''original'') H of
        None \<Rightarrow> []
      | Some (fc, fo) \<Rightarrow>
          (case queryOrNS (Tag ''origDate'') ''origDate'' (descendants fc fo) of
             None \<Rightarrow> trim (textContent fo)
           | Some (oc, od) \<Rightarrow>
               let dateFrom = orEmpty (getAttribute od ''from'');
                   dateTo = orEmpty (getAttribute od ''to'');
                   dateWhen = orEmpty (getAttribute od ''when'');
                   dateText = trim (textContent od)
               in if dateText \<noteq> [] then dateText
                  else if dateWhen \<noteq> [] then formatDate h dateWhen
                  else if dateFrom \<noteq> [] \<and> dateTo \<noteq> [] then
                    formatDate h dateFrom @ '' - '' @ formatDate h dateTo
                  else if dateFrom \<noteq> [] then ''ab '' @ formatDate h dateFrom
                  else []))"

text \<open>The edition (lines 201 to 211).\<close>

definition editionText :: "located list \<Rightarrow> string" where
  "editionText H =
     (case selectFirst (Inside ''additional'' ''listBibl'') H of
        None \<Rightarrow> []
      | Some (lc, listBibl) \<Rightarrow> trimmedText (selectFirst (Tag ''bibl'') (descendants lc listBibl)))"

text \<open>The dimensions (lines 220 to 232).\<close>

definition dimensionsText :: "located list \<Rightarrow> string" where
  "dimensionsText H =
     (case queryOrNS (Tag ''dimensions'') ''dimensions'' H of
        None \<Rightarrow> []
      | Some (dc, dims) \<Rightarrow>
          (case (queryOrNS (Tag ''width'') ''width'' (descendants dc dims),
                 queryOrNS (Tag ''height'') ''height'' (descendants dc dims)) of
             (Some (wc, width), Some (hc, height)) \<Rightarrow>
               let widthValue = strOr (orEmpty (getAttribute width ''quantity'')) (trim (textContent width));
                   heightValue = strOr (orEmpty (getAttribute height ''quantity'')) (trim (textContent height))
               in if widthValue \<noteq> [] \<and> heightValue \<noteq> [] then
                    widthValue @ '' '' @ times_sign @ '' '' @ heightValue @ '' cm''
                  else []
           | _ \<Rightarrow> []))"

text \<open>The editors (lines 247 to 257).\<close>

definition editorsOf :: "located list \<Rightarrow> (string \<times> string) list" where
  "editorsOf H =
     concat (map (\<lambda>(rc, resp).
        (case selectFirst (Tag ''persName'') (descendants rc resp) of
           None \<Rightarrow> []
         | Some (pc, persName) \<Rightarrow>
             [(trim (textContent persName),
               (case selectFirst (Tag ''resp'') (descendants rc resp) of
                  None \<Rightarrow> []
                | Some (oc, respEl) \<Rightarrow>
                    strOr (orEmpty (getAttribute respEl ''key'')) (trim (textContent respEl))))]))
       (selectAll (Tag ''respStmt'') H))"

text \<open>\<^verbatim>\<open>extractMetadata\<close> (lines 113 to 260); \<open>None\<close> is \<^verbatim>\<open>null\<close>.\<close>

definition extractMetadata :: "host \<Rightarrow> node list \<Rightarrow> metadata option" where
  "extractMetadata h xmlDoc =
     (case findHeader xmlDoc of
        None \<Rightarrow> None
      | Some (hc, header) \<Rightarrow>
          let H = descendants hc header;
              idnoEl = queryOrNS (Inside ''msIdentifier'' ''idno'') ''idno'' H;
              origDate = queryOrNS (Tag ''origDate'') ''origDate'' H;
              dateV = (case origDate of
                         None \<Rightarrow> []
                       | Some (c, od) \<Rightarrow>
                           strOr (orEmpty (getAttribute od ''when'')) (orEmpty (getAttribute od ''from'')))
          in Some
            \<lparr> title = trimmedText (queryOrNS (Inside ''msDesc'' ''head'') ''head'' H),
              idno = trimmedText idnoEl,
              idnoSource = (case idnoEl of
                              None \<Rightarrow> None
                            | Some (c, e) \<Rightarrow> Some (orEmpty (getAttribute e ''source''))),
              date = dateV,
              dateText = (case origDate of
                            None \<Rightarrow> []
                          | Some (c, od) \<Rightarrow> strOr (trim (textContent od)) (formatDate h dateV)),
              keywordList = map (\<lambda>(c, term). (trim (textContent term), orEmpty (getAttribute term ''ref'')))
                           (selectAll (Inside ''keywords'' ''term'') H),
              textLang = trimmedText (queryOrNS (Tag ''textLang'') ''textLang'' H),
              filiation = trimmedText
                (queryOrNS (TagAttr ''filiation'' ''type'' ''current'') ''filiation'' H),
              filiationOriginal = filiationOriginalText h H,
              edition = editionText H,
              material = trimmedText (queryOrNS (Tag ''material'') ''material'' H),
              dimensions = dimensionsText H,
              condition = trimmedText (queryOrNS (Tag ''condition'') ''condition'' H),
              seals = map (\<lambda>(c, seal). trim (textContent seal)) (selectAll (Tag ''seal'') H),
              editors = editorsOf H \<rparr>)"

text \<open>\<^verbatim>\<open>extractHeading\<close> (lines 284 to 314): title, date and id; \<open>None\<close> is \<^verbatim>\<open>null\<close>.\<close>

record heading =
  headingTitle :: string
  headingDate :: string
  headingIdno :: string

text \<open>\<^verbatim>\<open>xs[1]\<close> for a node list.\<close>

definition second :: "located list \<Rightarrow> located option" where
  "second xs = (if 1 < length xs then Some (xs ! 1) else None)"

definition extractHeading :: "host \<Rightarrow> node list \<Rightarrow> heading option" where
  "extractHeading h xmlDoc =
     (case findHeader xmlDoc of
        None \<Rightarrow> None
      | Some (hc, header) \<Rightarrow>
          let H = descendants hc header;
              seriesId = (case selectFirst (Inside ''seriesStmt'' ''idno'') H of
                            Some r \<Rightarrow> Some r
                          | None \<Rightarrow> second (selectAll (Tag ''idno'') H))
          in Some
            \<lparr> headingTitle = trimmedText (queryOrNS (Inside ''msDesc'' ''head'') ''head'' H),
              headingDate =
                (case queryOrNS (Tag ''origDate'') ''origDate'' H of
                   None \<Rightarrow> []
                 | Some (c, od) \<Rightarrow>
                     let when = strOr (orEmpty (getAttribute od ''when'')) (orEmpty (getAttribute od ''from''))
                     in strOr (trim (textContent od)) (formatDate h when)),
              headingIdno = trimmedText seriesId \<rparr>)"

subsection \<open>transform\<close>

record registers =
  regPersons :: "entity list"
  regPlaces :: "entity list"
  regOrganizations :: "entity list"
  regTerms :: "entity list"

text \<open>
  The result object (lines 58 to 71 and 85 to 91). Its fields carry the prefix \<open>result\<close>
  and the lists of its \<open>registers\<close> the prefix \<open>reg\<close>, the plain names being taken by the
  state or by Isabelle.
\<close>

record result =
  resultMetadata :: "metadata option"
  resultSummary :: string
  resultHeading :: "heading option"
  resultBody :: "string option"
  resultBack :: "string option"
  resultFootnotes :: "footnote list"
  resultRegisters :: registers

text \<open>
  \<^verbatim>\<open>transform\<close> (lines 46 to 94). The first state is the one the module variables hold
  when the call starts; the call overwrites every one of them (lines 48 to 56). It
  returns the result object and the state it leaves behind.
\<close>

definition transform :: "host \<Rightarrow> state \<Rightarrow> node list \<Rightarrow> bool \<Rightarrow> result \<times> state" where
  "transform h s xmlDoc normalized =
     (let s0 = s\<lparr> normalizedMode := normalized,
                 footnoteCounter := 0,
                 footnotes := [],
                 persons := [],
                 places := [],
                 organizations := [],
                 terms := [] \<rparr>;
          md = extractMetadata h xmlDoc;
          (summary, s1) = extractSummary h xmlDoc s0;
          hdg = extractHeading h xmlDoc;
          (bodyHtml, s2) =
            (case queryOrNS (Tag ''body'') ''body'' (docElements xmlDoc) of
               None \<Rightarrow> (None, s1)
             | Some (c, b) \<Rightarrow> (let (r, t) = transformNode h c b s1 in (Some r, t)));
          (backHtml, s3) =
            (case queryOrNS (Tag ''back'') ''back'' (docElements xmlDoc) of
               None \<Rightarrow> (None, s2)
             | Some (c, b) \<Rightarrow> (let (r, t) = transformBackMatter h c b s2 in (Some r, t)))
      in (\<lparr> resultMetadata = md,
            resultSummary = summary,
            resultHeading = hdg,
            resultBody = bodyHtml,
            resultBack = backHtml,
            resultFootnotes = footnotes s3,
            resultRegisters =
              \<lparr> regPersons = deduplicateEntities h (persons s3),
                regPlaces = deduplicateEntities h (places s3),
                regOrganizations = deduplicateEntities h (organizations s3),
                regTerms = deduplicateEntities h (terms s3) \<rparr> \<rparr>,
          s3))"

text \<open>The module variables when the script has been loaded (lines 14 to 25).\<close>

definition loadedState :: state where
  "loadedState =
     \<lparr> normalizedMode = False, footnoteCounter = 0, footnotes = [],
       persons = [], places = [], organizations = [], terms = [] \<rparr>"

section \<open>Notions used to state the properties\<close>

text \<open>
  The escaping the specification describes for text nodes: each of the five characters
  \<^verbatim>\<open>&\<close>, \<^verbatim>\<open><\<close>, \<^verbatim>\<open>>\<close>, the double quote and the single quote is replaced by its entity, every
  other character is kept.
\<close>

definition escapeFive :: "string \<Rightarrow> string" where
  "escapeFive t =
     concat (map (\<lambda>c.
        if c = CHR ''&'' then ''&amp;''
        else if c = CHR ''<'' then ''&lt;''
        else if c = CHR ''>'' then ''&gt;''
        else if c = CHR 0x22 then ''&quot;''
        else if c = CHR 0x27 then ''&#39;''
        else [c]) t)"

text \<open>
  HTML unescaping, as far as the escaping functions of the program need it: the entities
  \<^verbatim>\<open>&amp;\<close>, \<^verbatim>\<open>&lt;\<close>, \<^verbatim>\<open>&gt;\<close>, \<^verbatim>\<open>&quot;\<close>, \<^verbatim>\<open>&#39;\<close> and \<^verbatim>\<open>&nbsp;\<close> are decoded, everything else is kept.
\<close>

fun unescapeHTML :: "string \<Rightarrow> string" where
  "unescapeHTML [] = []"
| "unescapeHTML (c # cs) =
     (if c = CHR ''&'' \<and> startsWith cs ''amp;'' then CHR ''&'' # unescapeHTML (drop 4 cs)
      else if c = CHR ''&'' \<and> startsWith cs ''lt;'' then CHR ''<'' # unescapeHTML (drop 3 cs)
      else if c = CHR ''&'' \<and> startsWith cs ''gt;'' then CHR ''>'' # unescapeHTML (drop 3 cs)
      else if c = CHR ''&'' \<and> startsWith cs ''quot;'' then CHR 0x22 # unescapeHTML (drop 5 cs)
      else if c = CHR ''&'' \<and> startsWith cs ''#39;'' then CHR 0x27 # unescapeHTML (drop 4 cs)
      else if c = CHR ''&'' \<and> startsWith cs ''nbsp;'' then nbsp @ unescapeHTML (drop 5 cs)
      else c # unescapeHTML cs)"

text \<open>The stored footnotes carry the numbers 1, 2, 3, ... up to the counter, in order.\<close>

definition footnotesOK :: "state \<Rightarrow> bool" where
  "footnotesOK s = (map number (footnotes s) = [1 ..< Suc (footnoteCounter s)])"

text \<open>
  The element whose children \<open>transformChoice\<close> walks again: the first \<^verbatim>\<open>sic\<close>, \<^verbatim>\<open>abbr\<close> or
  \<^verbatim>\<open>orig\<close> below the node, for the first of the three pairs that is present; \<open>None\<close> when
  no pair is.
\<close>

definition choiceTarget :: "node list \<Rightarrow> node \<Rightarrow> located option" where
  "choiceTarget ctx node =
     (if queryIn ''sic'' ctx node \<noteq> None \<and> queryIn ''corr'' ctx node \<noteq> None
        then queryIn ''sic'' ctx node
      else if queryIn ''abbr'' ctx node \<noteq> None \<and> queryIn ''expan'' ctx node \<noteq> None
        then queryIn ''abbr'' ctx node
      else if queryIn ''orig'' ctx node \<noteq> None \<and> queryIn ''reg'' ctx node \<noteq> None
        then queryIn ''orig'' ctx node
      else None)"

text \<open>
  The register a semantic element is entered into, by the cases of the \<^verbatim>\<open>switch\<close>
  (lines 410 to 425): \<open>None\<close> for any other element, and for a \<^verbatim>\<open>term\<close> inside the header.
\<close>

definition semanticType :: "located \<Rightarrow> string option" where
  "semanticType x =
     (let nm = localName (snd x) in
      if nm = ''persName'' then Some ''person''
      else if nm = ''placeName'' \<or> nm = ''origPlace'' then Some ''place''
      else if nm = ''orgName'' then Some ''organization''
      else if nm = ''term'' \<and> \<not> isInsideHeader (fst x) then Some ''term''
      else None)"

definition register :: "string \<Rightarrow> state \<Rightarrow> entity list" where
  "register type s =
     (if type = ''person'' then persons s
      else if type = ''place'' then places s
      else if type = ''organization'' then organizations s
      else if type = ''term'' then terms s
      else [])"

text \<open>A \<^verbatim>\<open>note\<close> element that produces a footnote: its \<^verbatim>\<open>place\<close> is not one of the margins.\<close>

definition footnoteNote :: "located \<Rightarrow> bool" where
  "footnoteNote x =
     (localName (snd x) = ''note''
      \<and> orEmpty (getAttribute (snd x) ''place'') \<noteq> ''margin''
      \<and> orEmpty (getAttribute (snd x) ''place'') \<noteq> ''left''
      \<and> orEmpty (getAttribute (snd x) ''place'') \<noteq> ''right'')"

text \<open>The value of the \<^verbatim>\<open>data-tooltip\<close> attribute as an HTML parser reads it: the text up to
  the next double quote.\<close>

definition attributeValueRead :: "string \<Rightarrow> string" where
  "attributeValueRead rest = takeWhile (\<lambda>c. c \<noteq> CHR 0x22) rest"

subsection \<open>The order of the walk\<close>

















subsection \<open>Example documents\<close>

definition tei :: "string \<Rightarrow> (string \<times> string) list \<Rightarrow> node list \<Rightarrow> node" where
  "tei nm as ks = Element TEI_NS nm as ks"

text \<open>
  \<^verbatim>\<open><choice><sic>x<persName>Hans</persName><note>n</note></sic>\<close>
  \<^verbatim>\<open><corr>y<persName>Anna</persName></corr></choice>\<close>
\<close>

definition exampleSic :: node where
  "exampleSic = tei ''sic'' [] [Text ''x'', tei ''persName'' [] [Text ''Hans''], tei ''note'' [] [Text ''n'']]"

definition exampleChoice :: node where
  "exampleChoice =
     tei ''choice'' []
       [exampleSic, tei ''corr'' [] [Text ''y'', tei ''persName'' [] [Text ''Anna'']]]"

text \<open>
  \<^verbatim>\<open><TEI><teiHeader><summary><note>s</note></summary></teiHeader>\<close>
  \<^verbatim>\<open><text><body><p>a<note place="margin">m</note><note>f</note><persName>Hans</persName></p></body></text></TEI>\<close>
  and a second document with one place name and no note.
\<close>

definition exampleDoc :: "node list" where
  "exampleDoc =
     [tei ''TEI'' []
       [tei ''teiHeader'' [] [tei ''summary'' [] [tei ''note'' [] [Text ''s'']]],
        tei ''text'' []
          [tei ''body'' []
            [tei ''p'' []
              [Text ''a'', tei ''note'' [(''place'', ''margin'')] [Text ''m''],
               tei ''note'' [] [Text ''f''], tei ''persName'' [] [Text ''Hans'']]]]]]"

definition exampleDoc2 :: "node list" where
  "exampleDoc2 =
     [tei ''TEI'' []
       [tei ''text'' [] [tei ''body'' [] [tei ''p'' [] [tei ''placeName'' [] [Text ''Bern'']]]]]]"


section \<open>Properties of the tree walk\<close>

text \<open>
  The only writes to the state during the walk are \<open>addFootnote\<close> and \<open>pushEntity\<close>. Hence
  a relation between states that is reflexive and transitive and holds across these two
  holds across every function of the walk.
\<close>

lemma handleElement_rel:
  assumes refl: "\<And>s. R s s"
    and foot: "\<And>t s. R s (addFootnote t s)"
    and push: "\<And>ty e s. R s (pushEntity ty e s)"
  shows "R s (snd (handleElement h ctx node ch s))"
  by (simp add: handleElement_def transformSemanticElement_def transformNote_def handShift_def
      Let_def refl foot push)

lemma walk_rel:
  assumes refl: "\<And>s. R s s"
    and trans: "\<And>a b c. R a b \<Longrightarrow> R b c \<Longrightarrow> R a c"
    and foot: "\<And>t s. R s (addFootnote t s)"
    and push: "\<And>ty e s. R s (pushEntity ty e s)"
  shows "R s (snd (transformNode h ctx n s))"
    and "R s (snd (transformChildren h ctx ks s))"
    and "R s (snd (transformChoice h ctx n s))"
    and "R s (snd (transformApp h ctx n ch s))"
proof (induction h ctx n s and h ctx ks s and h ctx n s and h ctx n ch s
    rule: transformNode_transformChildren_transformChoice_transformApp.induct)
  case (1 h ctx t s)
  show ?case by (simp add: refl)
next
  case (2 h ctx t s)
  show ?case by (simp add: refl)
next
  case (3 h ctx t s)
  show ?case by (simp add: refl)
next
  case (4 h ctx t s)
  show ?case by (simp add: refl)
next
  case (5 h ctx ns nm as ks s)
  let ?node = "Element ns nm as ks"
  let ?r = "transformChildren h (?node # ctx) ks s"
  have a: "R s (snd ?r)" by (rule 5(1)[OF HOL.refl])
  have b: "R (snd ?r) (snd (transformNode h ctx ?node s))"
  proof (cases "nm = ''choice''")
    case True
    from 5(2)[OF HOL.refl HOL.refl prod.collapse True] True show ?thesis
      by (simp add: split_beta Let_def)
  next
    case False
    show ?thesis
    proof (cases "nm = ''app''")
      case True
      from 5(3)[OF HOL.refl HOL.refl prod.collapse False True] False True show ?thesis
        by (simp add: split_beta Let_def)
    next
      case notApp: False
      have "R (snd ?r) (snd (handleElement h ctx ?node (fst ?r) (snd ?r)))"
        by (rule handleElement_rel[of R, OF refl foot push])
      with False notApp show ?thesis by (simp add: split_beta Let_def)
    qed
  qed
  from a b show ?case by (rule trans)
next
  case (6 h ctx s)
  show ?case by (simp add: refl)
next
  case (7 h ctx child rest s)
  let ?r = "transformNode h ctx child s"
  have a: "R s (snd ?r)" by (rule 7(1))
  have b: "R (snd ?r) (snd (transformChildren h ctx rest (snd ?r)))"
    by (rule 7(2)[OF HOL.refl prod.collapse])
  have "snd (transformChildren h ctx (child # rest) s) = snd (transformChildren h ctx rest (snd ?r))"
    by (simp add: split_beta)
  with trans[OF a b] show ?case by simp
next
  case (8 h ctx node s)
  note ih = 8[OF HOL.refl HOL.refl HOL.refl HOL.refl HOL.refl HOL.refl]
  show ?case
  proof (cases "queryIn ''sic'' ctx node \<noteq> None \<and> queryIn ''corr'' ctx node \<noteq> None")
    case True
    from ih(1)[OF True] show ?thesis
      by (subst transformChoice.simps)
        (simp only: Let_def split_beta if_P[OF True] snd_conv)
  next
    case n1: False
    show ?thesis
    proof (cases "queryIn ''abbr'' ctx node \<noteq> None \<and> queryIn ''expan'' ctx node \<noteq> None")
      case True
      from ih(2)[OF n1 True] show ?thesis
        by (subst transformChoice.simps)
          (simp only: Let_def split_beta if_not_P[OF n1] if_P[OF True] snd_conv)
    next
      case n2: False
      show ?thesis
      proof (cases "queryIn ''orig'' ctx node \<noteq> None \<and> queryIn ''reg'' ctx node \<noteq> None")
        case True
        from ih(3)[OF n1 n2 True] show ?thesis
          by (subst transformChoice.simps)
            (simp only: Let_def split_beta if_not_P[OF n1] if_not_P[OF n2] if_P[OF True] snd_conv)
      next
        case n3: False
        from ih(4)[OF n1 n2 n3] show ?thesis
          by (subst transformChoice.simps)
            (simp only: Let_def split_beta if_not_P[OF n1] if_not_P[OF n2] if_not_P[OF n3])
      qed
    qed
  qed
next
  case (9 h ctx node children s)
  note ih = 9[OF HOL.refl HOL.refl]
  show ?case
  proof (cases "queryIn ''lem'' ctx node \<noteq> None")
    case True
    from ih[OF True] show ?thesis
      by (subst transformApp.simps)
        (simp add: Let_def split_beta if_P[OF True] del: not_None_eq)
  next
    case False
    show ?thesis
      by (subst transformApp.simps)
        (simp add: Let_def split_beta if_not_P[OF False] refl del: not_None_eq)
  qed
qed

section \<open>Properties of single elements\<close>

lemma normalizedMode_children:
  "normalizedMode (snd (transformChildren h ctx ks s)) = normalizedMode s"
  by (rule walk_rel(2)[of "\<lambda>a b. normalizedMode b = normalizedMode a"])
    (simp_all add: addFootnote_def pushEntity_def)

lemma unescape_escapeChar: "unescapeHTML (escapeChar c @ r) = c # unescapeHTML r"
  by (simp add: escapeChar_def startsWith_def)

lemma unescape_nbsp: \<open>unescapeHTML (''&nbsp;'' @ r) = nbsp @ unescapeHTML r\<close>
  by (simp add: startsWith_def)

lemma unescape_escapeHTML: "unescapeHTML (escapeHTML t) = t"
proof (induction t rule: escapeHTML.induct)
  case 1
  show ?case by simp
next
  case (2 c)
  have "unescapeHTML (escapeChar c @ []) = c # unescapeHTML []"
    by (rule unescape_escapeChar)
  then show ?case by simp
next
  case (3 c d cs)
  show ?case
  proof (cases "[c, d] = nbsp")
    case True
    then have e: \<open>escapeHTML (c # d # cs) = ''&nbsp;'' @ escapeHTML cs\<close>
      by (simp only: escapeHTML.simps if_P)
    have "unescapeHTML (escapeHTML (c # d # cs)) = nbsp @ unescapeHTML (escapeHTML cs)"
      by (simp only: e unescape_nbsp)
    with 3(1)[OF True] True show ?thesis by simp
  next
    case False
    with 3(2)[OF False] show ?thesis
      by (simp add: unescape_escapeChar del: unescapeHTML.simps)
  qed
qed

text \<open>
  Claim C1, as amended. For every text node, the output of \<open>transformNode\<close> is the HTML
  serialisation \<open>escapeHTML\<close> of the text, which replaces \<^verbatim>\<open>&\<close>, \<^verbatim>\<open><\<close>, \<^verbatim>\<open>>\<close> and U+00A0 by their
  entities and changes nothing else; the state is left as it is, and unescaping the
  output gives the text back.
\<close>

theorem text_node_roundtrip:
  "transformNode h ctx (Text t) s = (escapeHTML t, s)
   \<and> unescapeHTML (fst (transformNode h ctx (Text t) s)) = t"
  by (simp add: unescape_escapeHTML del: unescapeHTML.simps)

text \<open>
  Claim C1 as stated says that the output is the escaping of the five characters
  \<^verbatim>\<open>& < > " '\<close>. For the text node holding one double quote the output is the double quote
  itself, not \<^verbatim>\<open>&quot;\<close>: the two quote characters are not escaped.
\<close>

theorem text_node_quote_counterexample:
  \<open>fst (transformNode exampleHost [] (Text [CHR 0x22]) loadedState) = [CHR 0x22]
   \<and> escapeFive [CHR 0x22] = ''&quot;''
   \<and> fst (transformNode exampleHost [] (Text [CHR 0x22]) loadedState) \<noteq> escapeFive [CHR 0x22]\<close>
  by (simp add: escapeFive_def escapeChar_def)

text \<open>
  Claim C7. When \<open>normalizedMode\<close> is set, an \<^verbatim>\<open>lb\<close> element contributes the empty string,
  whatever its attributes; otherwise it gives a hyphen followed by a line break when its
  \<^verbatim>\<open>break\<close> attribute is \<^verbatim>\<open>no\<close>, and a plain line break in every other case.
\<close>

theorem lb_output:
  \<open>fst (transformNode h ctx (Element ns ''lb'' as ks) s) =
     (if normalizedMode s then []
      else if map_of as ''break'' = Some ''no'' then ''-<br>''
      else ''<br>'')\<close>
  by (simp add: split_beta Let_def handleElement_def elementHTML_def getAttribute_def
      normalizedMode_children)

theorem lb_output_witness:
  \<open>fst (transformNode exampleHost [] (tei ''lb'' [(''break'', ''no'')] [])
          (loadedState\<lparr>normalizedMode := True\<rparr>)) = []
   \<and> fst (transformNode exampleHost [] (tei ''lb'' [(''break'', ''no'')] []) loadedState) = ''-<br>''
   \<and> fst (transformNode exampleHost [] (tei ''lb'' [] []) loadedState) = ''<br>''\<close>
  using lb_output[of exampleHost "[]" TEI_NS "[(''break'', ''no'')]" "[]"
      "loadedState\<lparr>normalizedMode := True\<rparr>"]
    lb_output[of exampleHost "[]" TEI_NS "[(''break'', ''no'')]" "[]" loadedState]
    lb_output[of exampleHost "[]" TEI_NS "[]" "[]" loadedState]
  by (simp add: tei_def loadedState_def)

lemma replaceAll_removes: "c \<notin> set r \<Longrightarrow> c \<notin> set (replaceAll c r s)"
  by (induction s) (auto simp: replaceAll_def)

lemma replaceAll_keeps_out: "x \<notin> set r \<Longrightarrow> x \<notin> set s \<Longrightarrow> x \<notin> set (replaceAll c r s)"
  by (induction s) (auto simp: replaceAll_def)

lemma escapeAttr_no_quote: "CHR 0x22 \<notin> set (escapeAttr t)"
  unfolding escapeAttr_def
  by (intro replaceAll_keeps_out replaceAll_removes) simp_all

lemma attributeValueRead_quote:
  assumes "CHR 0x22 \<in> set v"
  shows "attributeValueRead (p @ v @ r) \<noteq> p @ v"
proof
  assume "attributeValueRead (p @ v @ r) = p @ v"
  then have "\<forall>c \<in> set (p @ v). c \<noteq> CHR 0x22"
    unfolding attributeValueRead_def by (metis (full_types) set_takeWhileD)
  with assms show False by auto
qed

lemma escapeAttr_quote: "CHR 0x22 \<in> set v \<Longrightarrow> escapeAttr v \<noteq> v"
  using escapeAttr_no_quote[of v] by auto

lemma pb_output:
  assumes "map_of as ''facs'' = Some facs" and "facs \<noteq> []"
  shows \<open>fst (transformNode h ctx (Element ns ''pb'' as ks) s) =
           ''<span class="pb-marker" data-tooltip="Faksimile: '' @ facs
             @ ''" data-tooltip-type="page">[''
             @ (if orEmpty (map_of as ''n'') \<noteq> [] then ''S. '' @ orEmpty (map_of as ''n'') else [])
             @ '']</span>''\<close>
  using assms
  by (simp add: split_beta Let_def handleElement_def elementHTML_def getAttribute_def orEmpty_def)

lemma del_output:
  assumes "map_of bs ''rend'' = Some rend" and "rend \<noteq> []"
  shows \<open>fst (transformNode h ctx (Element ns ''del'' bs js) t) =
           ''<span class="tei-del text-critical" data-tooltip="Gestrichen: '' @ rend
             @ ''" data-tooltip-type="textcritical">''
             @ fst (transformChildren h (Element ns ''del'' bs js # ctx) js t) @ ''</span>''\<close>
  using assms
  by (simp add: split_beta Let_def handleElement_def elementHTML_def getAttribute_def orEmpty_def)

lemma unclear_output:
  assumes "map_of cs ''reason'' = Some reason" and "reason \<noteq> []"
  shows \<open>fst (transformNode h ctx (Element ns ''unclear'' cs js) t) =
           ''<span class="tei-unclear text-critical" data-tooltip="'' @ escapeAttr reason
             @ ''" data-tooltip-type="textcritical">''
             @ fst (transformChildren h (Element ns ''unclear'' cs js # ctx) js t) @ ''</span>''\<close>
  using assms
  by (simp add: split_beta Let_def handleElement_def elementHTML_def getAttribute_def orEmpty_def)

text \<open>
  Claim C10. The \<^verbatim>\<open>pb\<close> case puts the value of \<^verbatim>\<open>facs\<close> into the \<^verbatim>\<open>data-tooltip\<close> attribute as
  it is: when the value contains a double quote, what is emitted differs from \<open>escapeAttr\<close>
  of it, and an HTML parser reading the attribute stops at that quote. The claim compares
  this with the escaped text of every other case with a tooltip. The \<^verbatim>\<open>unclear\<close> case is
  one of those that escape (its \<^verbatim>\<open>reason\<close> goes through \<open>escapeAttr\<close>); the \<^verbatim>\<open>del\<close> case does
  not: for every \<^verbatim>\<open>del\<close> element with a \<^verbatim>\<open>rend\<close> attribute, whatever its children, the value
  reaches the \<^verbatim>\<open>data-tooltip\<close> attribute unescaped, so that a double quote in it ends the
  attribute early, as in \<^verbatim>\<open>pb\<close>.
\<close>

theorem pb_facs_unescaped:
  \<open>(map_of as ''facs'' = Some facs \<and> facs \<noteq> [] \<longrightarrow>
      fst (transformNode h ctx (Element ns ''pb'' as ks) s) =
        ''<span class="pb-marker" data-tooltip="Faksimile: '' @ facs
          @ ''" data-tooltip-type="page">[''
          @ (if orEmpty (map_of as ''n'') \<noteq> [] then ''S. '' @ orEmpty (map_of as ''n'') else [])
          @ '']</span>''
      \<and> (CHR 0x22 \<in> set facs \<longrightarrow>
           escapeAttr facs \<noteq> facs
           \<and> attributeValueRead (''Faksimile: '' @ facs @ ''" data-tooltip-type="page">'')
               \<noteq> ''Faksimile: '' @ facs))
   \<and> (map_of bs ''rend'' = Some rend \<and> rend \<noteq> [] \<longrightarrow>
      fst (transformNode h ctx (Element ns ''del'' bs js) t) =
        ''<span class="tei-del text-critical" data-tooltip="Gestrichen: '' @ rend
          @ ''" data-tooltip-type="textcritical">''
          @ fst (transformChildren h (Element ns ''del'' bs js # ctx) js t) @ ''</span>''
      \<and> (CHR 0x22 \<in> set rend \<longrightarrow>
           escapeAttr rend \<noteq> rend
           \<and> attributeValueRead (''Gestrichen: '' @ rend @ ''" data-tooltip-type="textcritical">'')
               \<noteq> ''Gestrichen: '' @ rend))
   \<and> (map_of cs ''reason'' = Some reason \<and> reason \<noteq> [] \<longrightarrow>
      fst (transformNode h ctx (Element ns ''unclear'' cs js) t) =
        ''<span class="tei-unclear text-critical" data-tooltip="'' @ escapeAttr reason
          @ ''" data-tooltip-type="textcritical">''
          @ fst (transformChildren h (Element ns ''unclear'' cs js # ctx) js t) @ ''</span>''
      \<and> CHR 0x22 \<notin> set (escapeAttr reason))\<close>
proof (intro conjI impI)
  assume "map_of as ''facs'' = Some facs \<and> facs \<noteq> []"
  then show \<open>fst (transformNode h ctx (Element ns ''pb'' as ks) s) =
        ''<span class="pb-marker" data-tooltip="Faksimile: '' @ facs
          @ ''" data-tooltip-type="page">[''
          @ (if orEmpty (map_of as ''n'') \<noteq> [] then ''S. '' @ orEmpty (map_of as ''n'') else [])
          @ '']</span>''\<close>
    by (intro pb_output) simp_all
next
  assume "CHR 0x22 \<in> set facs"
  then show "escapeAttr facs \<noteq> facs" by (rule escapeAttr_quote)
next
  assume "CHR 0x22 \<in> set facs"
  then show \<open>attributeValueRead (''Faksimile: '' @ facs @ ''" data-tooltip-type="page">'')
               \<noteq> ''Faksimile: '' @ facs\<close>
    by (rule attributeValueRead_quote)
next
  assume "map_of bs ''rend'' = Some rend \<and> rend \<noteq> []"
  then show \<open>fst (transformNode h ctx (Element ns ''del'' bs js) t) =
        ''<span class="tei-del text-critical" data-tooltip="Gestrichen: '' @ rend
          @ ''" data-tooltip-type="textcritical">''
          @ fst (transformChildren h (Element ns ''del'' bs js # ctx) js t) @ ''</span>''\<close>
    by (intro del_output) simp_all
next
  assume "CHR 0x22 \<in> set rend"
  then show "escapeAttr rend \<noteq> rend" by (rule escapeAttr_quote)
next
  assume "CHR 0x22 \<in> set rend"
  then show \<open>attributeValueRead (''Gestrichen: '' @ rend @ ''" data-tooltip-type="textcritical">'')
               \<noteq> ''Gestrichen: '' @ rend\<close>
    by (rule attributeValueRead_quote)
next
  assume "map_of cs ''reason'' = Some reason \<and> reason \<noteq> []"
  then show \<open>fst (transformNode h ctx (Element ns ''unclear'' cs js) t) =
        ''<span class="tei-unclear text-critical" data-tooltip="'' @ escapeAttr reason
          @ ''" data-tooltip-type="textcritical">''
          @ fst (transformChildren h (Element ns ''unclear'' cs js # ctx) js t) @ ''</span>''\<close>
    by (intro unclear_output) simp_all
next
  show "CHR 0x22 \<notin> set (escapeAttr reason)" by (rule escapeAttr_no_quote)
qed

theorem pb_facs_unescaped_witness:
  \<open>map_of [(''facs'', ''f"1'')] ''facs'' = Some ''f"1''
   \<and> ''f"1'' \<noteq> []
   \<and> fst (transformNode exampleHost [] (tei ''pb'' [(''facs'', ''f"1'')] []) loadedState) =
       ''<span class="pb-marker" data-tooltip="Faksimile: f"1" data-tooltip-type="page">[]</span>''
   \<and> escapeAttr ''f"1'' \<noteq> ''f"1''
   \<and> attributeValueRead (''Faksimile: f"1" data-tooltip-type="page">'') \<noteq> ''Faksimile: f"1''
   \<and> map_of [(''rend'', ''a"b'')] ''rend'' = Some ''a"b''
   \<and> fst (transformNode exampleHost [] (tei ''del'' [(''rend'', ''a"b'')] [Text ''x'']) loadedState) =
       ''<span class="tei-del text-critical" data-tooltip="Gestrichen: a"b" data-tooltip-type="textcritical">x</span>''
   \<and> escapeAttr ''a"b'' = ''a&quot;b''
   \<and> attributeValueRead (''Gestrichen: a"b" data-tooltip-type="textcritical">'') = ''Gestrichen: a''
   \<and> map_of [(''reason'', ''a"b'')] ''reason'' = Some ''a"b''
   \<and> fst (transformNode exampleHost [] (tei ''unclear'' [(''reason'', ''a"b'')] [Text ''x'']) loadedState) =
       ''<span class="tei-unclear text-critical" data-tooltip="a&quot;b" data-tooltip-type="textcritical">x</span>''\<close>
proof -
  note w = pb_facs_unescaped[where as = \<open>[(''facs'', ''f"1'')]\<close> and facs = \<open>''f"1''\<close>
      and bs = \<open>[(''rend'', ''a"b'')]\<close> and rend = \<open>''a"b''\<close>
      and cs = \<open>[(''reason'', ''a"b'')]\<close> and reason = \<open>''a"b''\<close>
      and h = exampleHost and ctx = "[]" and ns = TEI_NS and ks = "[]" and s = loadedState
      and js = "[Text ''x'']" and t = loadedState]
  have e: \<open>escapeAttr ''a"b'' = ''a&quot;b''\<close>
    by (simp add: escapeAttr_def replaceAll_def)
  have r: \<open>attributeValueRead (''Gestrichen: a"b" data-tooltip-type="textcritical">'') = ''Gestrichen: a''\<close>
    by (simp add: attributeValueRead_def)
  from w e r show ?thesis
    by (simp add: tei_def orEmpty_def escapeChar_def del: transformNode.simps(5))
qed

section \<open>The walk as a whole\<close>

lemma after_children_rel:
  assumes refl: "\<And>s. R s s"
    and trans: "\<And>a b c. R a b \<Longrightarrow> R b c \<Longrightarrow> R a c"
    and foot: "\<And>t s. R s (addFootnote t s)"
    and push: "\<And>ty e s. R s (pushEntity ty e s)"
  shows "R (snd (transformChildren h (Element ns nm as ks # ctx) ks s))
           (snd (transformNode h ctx (Element ns nm as ks) s))"
proof -
  let ?node = "Element ns nm as ks"
  let ?r = "transformChildren h (?node # ctx) ks s"
  have c: "R (snd ?r) (snd (transformChoice h ctx ?node (snd ?r)))"
    by (rule walk_rel(3)[of R, OF refl trans foot push])
  have a: "R (snd ?r) (snd (transformApp h ctx ?node (fst ?r) (snd ?r)))"
    by (rule walk_rel(4)[of R, OF refl trans foot push])
  have e: "R (snd ?r) (snd (handleElement h ctx ?node (fst ?r) (snd ?r)))"
    by (rule handleElement_rel[of R, OF refl foot push])
  from c a e show ?thesis by (auto simp: split_beta Let_def)
qed

lemma transformEach_rel:
  assumes refl: "\<And>s. R s s"
    and trans: "\<And>a b c. R a b \<Longrightarrow> R b c \<Longrightarrow> R a c"
    and foot: "\<And>t s. R s (addFootnote t s)"
    and push: "\<And>ty e s. R s (pushEntity ty e s)"
  shows "R s (snd (transformEach h ps s))"
proof (induction ps arbitrary: s)
  case Nil
  show ?case by (simp add: refl)
next
  case (Cons p ps)
  obtain c e where p: "p = (c, e)" by (cases p)
  let ?r = "transformChildren h (e # c) (childNodes e) s"
  have a: "R s (snd ?r)" by (rule walk_rel(2)[of R, OF refl trans foot push])
  have b: "R (snd ?r) (snd (transformEach h ps (snd ?r)))" by (rule Cons.IH)
  have "snd (transformEach h (p # ps) s) = snd (transformEach h ps (snd ?r))"
    by (simp add: p split_beta)
  with trans[OF a b] show ?case by simp
qed

lemma transformBackMatter_rel:
  assumes refl: "\<And>s. R s s"
    and trans: "\<And>a b c. R a b \<Longrightarrow> R b c \<Longrightarrow> R a c"
    and foot: "\<And>t s. R s (addFootnote t s)"
    and push: "\<And>ty e s. R s (pushEntity ty e s)"
  shows "R s (snd (transformBackMatter h ctx backNode s))"
proof -
  let ?ps = "concat (map (\<lambda>(c, d). selectAll (Tag ''p'') (descendants c d))
               (selectAll (Tag ''div'') (descendants ctx backNode)))"
  let ?r = "transformEach h ?ps s"
  have a: "R s (snd ?r)" by (rule transformEach_rel[of R, OF refl trans foot push])
  have b: "R (snd ?r) (snd (transformChildren h (backNode # ctx) (childNodes backNode) (snd ?r)))"
    by (rule walk_rel(2)[of R, OF refl trans foot push])
  from a trans[OF a b] show ?thesis
    by (simp add: transformBackMatter_def Let_def split_beta)
qed

lemma extractSummary_rel:
  assumes refl: "\<And>s. R s s"
    and trans: "\<And>a b c. R a b \<Longrightarrow> R b c \<Longrightarrow> R a c"
    and foot: "\<And>t s. R s (addFootnote t s)"
    and push: "\<And>ty e s. R s (pushEntity ty e s)"
  shows "R s (snd (extractSummary h xmlDoc s))"
  by (simp add: extractSummary_def Let_def split_beta refl
      walk_rel(2)[of R, OF refl trans foot push] split: option.split)

text \<open>The state with which \<open>transform\<close> starts its work (lines 48 to 56).\<close>

lemma reset_state:
  "(s :: state)\<lparr> normalizedMode := n, footnoteCounter := 0, footnotes := [], persons := [],
      places := [], organizations := [], terms := [] \<rparr>
   = \<lparr> normalizedMode = n, footnoteCounter = 0, footnotes = [], persons = [],
       places = [], organizations = [], terms = [] \<rparr>"
  by (cases s) simp

lemma transform_rel:
  assumes refl: "\<And>s. R s s"
    and trans: "\<And>a b c. R a b \<Longrightarrow> R b c \<Longrightarrow> R a c"
    and foot: "\<And>t s. R s (addFootnote t s)"
    and push: "\<And>ty e s. R s (pushEntity ty e s)"
  shows "R \<lparr> normalizedMode = n, footnoteCounter = 0, footnotes = [], persons = [],
             places = [], organizations = [], terms = [] \<rparr>
           (snd (transform h s xmlDoc n))"
proof -
  let ?s0 = "\<lparr> normalizedMode = n, footnoteCounter = 0, footnotes = [], persons = [],
               places = [], organizations = [], terms = [] \<rparr>"
  let ?s1 = "snd (extractSummary h xmlDoc ?s0)"
  let ?b = "queryOrNS (Tag ''body'') ''body'' (docElements xmlDoc)"
  let ?s2 = "case ?b of None \<Rightarrow> ?s1 | Some (c, b) \<Rightarrow> snd (transformNode h c b ?s1)"
  let ?k = "queryOrNS (Tag ''back'') ''back'' (docElements xmlDoc)"
  let ?s3 = "case ?k of None \<Rightarrow> ?s2 | Some (c, b) \<Rightarrow> snd (transformBackMatter h c b ?s2)"
  have 1: "R ?s0 ?s1" by (rule extractSummary_rel[of R, OF refl trans foot push])
  have 2: "R ?s1 ?s2"
    by (simp add: refl walk_rel(1)[of R, OF refl trans foot push] split: option.split)
  have 3: "R ?s2 ?s3"
    by (simp add: refl transformBackMatter_rel[of R, OF refl trans foot push] split: option.split)
  have "snd (transform h s xmlDoc n) = ?s3"
    by (simp add: transform_def reset_state Let_def split_beta split: option.split)
  with trans[OF trans[OF 1 2] 3] show ?thesis by simp
qed

section \<open>Properties of the footnotes\<close>

lemma footnotesOK_addFootnote:
  assumes "footnotesOK s"
  shows "footnotesOK (addFootnote t s)"
proof -
  from assms have m: "map number (footnotes s) = [1 ..< Suc (footnoteCounter s)]"
    by (simp only: footnotesOK_def)
  have u: "[1 ..< Suc (Suc (footnoteCounter s))] = [1 ..< Suc (footnoteCounter s)] @ [Suc (footnoteCounter s)]"
    by (rule upt_Suc_append) simp
  have "map number (footnotes (addFootnote t s)) = map number (footnotes s) @ [Suc (footnoteCounter s)]"
    by (simp add: addFootnote_def)
  also have "\<dots> = [1 ..< Suc (Suc (footnoteCounter s))]"
    by (simp only: m u)
  also have "Suc (footnoteCounter s) = footnoteCounter (addFootnote t s)"
    by (simp add: addFootnote_def)
  finally show ?thesis by (simp only: footnotesOK_def)
qed

lemma pushEntity_footnotes:
  "footnotes (pushEntity ty e s) = footnotes s"
  "footnoteCounter (pushEntity ty e s) = footnoteCounter s"
  by (simp_all add: pushEntity_def)

lemma footnotesOK_pushEntity: "footnotesOK s \<Longrightarrow> footnotesOK (pushEntity ty e s)"
  by (simp only: footnotesOK_def pushEntity_footnotes)

lemma footnotesOK_walk:
  "footnotesOK s \<longrightarrow> footnotesOK (snd (transformNode h ctx nd s))"
  by (rule walk_rel(1)[of "\<lambda>a b. footnotesOK a \<longrightarrow> footnotesOK b"])
    (simp_all add: footnotesOK_addFootnote footnotesOK_pushEntity)


lemma transform_footnotesOK: "footnotesOK (snd (transform h s xmlDoc n))"
proof -
  let ?s0 = "\<lparr> normalizedMode = n, footnoteCounter = 0, footnotes = [], persons = [],
               places = [], organizations = [], terms = [] \<rparr>"
  have "footnotesOK ?s0 \<longrightarrow> footnotesOK (snd (transform h s xmlDoc n))"
    by (rule transform_rel[of "\<lambda>a b. footnotesOK a \<longrightarrow> footnotesOK b"])
      (simp_all add: footnotesOK_addFootnote footnotesOK_pushEntity)
  moreover have "footnotesOK ?s0" by (simp add: footnotesOK_def)
  ultimately show ?thesis by simp
qed


section \<open>Properties of the second walk in choice and app\<close>

lemma subtree_trans:
  "y \<in> set (subtree ctx n) \<Longrightarrow> x \<in> set (subtree (fst y) (snd y)) \<Longrightarrow> x \<in> set (subtree ctx n)"
proof (induction n arbitrary: ctx)
  case (Element ns nm as ks)
  show ?case
  proof (cases "y = (ctx, Element ns nm as ks)")
    case True
    with Element.prems(2) show ?thesis by simp
  next
    case False
    with Element.prems(1) obtain k where k: "k \<in> set ks"
      and m: "y \<in> set (subtree (Element ns nm as ks # ctx) k)"
      by auto
    from Element.IH[OF k m Element.prems(2)] k show ?thesis by auto
  qed
qed simp_all

lemma descendants_subtree: "set (descendants c e) \<subseteq> set (subtree c e)"
  by (cases e) (auto simp: descendants_def)

lemma descendants_trans:
  assumes "y \<in> set (descendants ctx n)" and "x \<in> set (descendants (fst y) (snd y))"
  shows "\<exists>k \<in> set (childNodes n). x \<in> set (subtree (n # ctx) k)"
proof -
  from assms(1) obtain k where k: "k \<in> set (childNodes n)"
    and m: "y \<in> set (subtree (n # ctx) k)"
    by (auto simp: descendants_def)
  from assms(2) descendants_subtree have "x \<in> set (subtree (fst y) (snd y))" by blast
  from subtree_trans[OF m this] k show ?thesis by blast
qed

lemma queryIn_mem: "queryIn nm ctx node = Some y \<Longrightarrow> y \<in> set (descendants ctx node)"
  by (auto simp: queryIn_def queryOrNS_def selectFirst_def firstByTagNameNS_def
      split: option.splits dest: find_mem)

lemma choiceTarget_mem: "choiceTarget ctx node = Some y \<Longrightarrow> y \<in> set (descendants ctx node)"
  by (auto simp: choiceTarget_def split: if_splits dest: queryIn_mem)

lemma transformChoice_target:
  assumes "choiceTarget ctx node = Some y"
  shows "snd (transformChoice h ctx node s)
           = snd (transformChildren h (snd y # fst y) (childNodes (snd y)) s)"
proof (cases "queryIn ''sic'' ctx node \<noteq> None \<and> queryIn ''corr'' ctx node \<noteq> None")
  case True
  from assms have y: "queryIn ''sic'' ctx node = Some y"
    by (simp only: choiceTarget_def if_P[OF True])
  show ?thesis
    by (subst transformChoice.simps)
      (simp only: Let_def split_beta if_P[OF True] snd_conv,
        simp only: y option.sel)
next
  case n1: False
  show ?thesis
  proof (cases "queryIn ''abbr'' ctx node \<noteq> None \<and> queryIn ''expan'' ctx node \<noteq> None")
    case True
    from assms have y: "queryIn ''abbr'' ctx node = Some y"
      by (simp only: choiceTarget_def if_not_P[OF n1] if_P[OF True])
    show ?thesis
      by (subst transformChoice.simps)
        (simp only: Let_def split_beta if_not_P[OF n1] if_P[OF True] snd_conv,
        simp only: y option.sel)
  next
    case n2: False
    show ?thesis
    proof (cases "queryIn ''orig'' ctx node \<noteq> None \<and> queryIn ''reg'' ctx node \<noteq> None")
      case True
      from assms have y: "queryIn ''orig'' ctx node = Some y"
        by (simp only: choiceTarget_def if_not_P[OF n1] if_not_P[OF n2] if_P[OF True])
      show ?thesis
        by (subst transformChoice.simps)
          (simp only: Let_def split_beta if_not_P[OF n1] if_not_P[OF n2] if_P[OF True] snd_conv,
            simp only: y option.sel)
    next
      case n3: False
      have "choiceTarget ctx node = None"
        by (simp only: choiceTarget_def if_not_P[OF n1] if_not_P[OF n2] if_not_P[OF n3])
      with assms show ?thesis by simp
    qed
  qed
qed

lemma transformApp_lem:
  assumes "queryIn ''lem'' ctx node = Some y"
  shows "snd (transformApp h ctx node ch s)
           = snd (transformChildren h (snd y # fst y) (childNodes (snd y)) s)"
  by (subst transformApp.simps) (simp add: Let_def split_beta assms)

text \<open>
  An element that is reached by the walk and whose case adds to a counter of the state
  raises that counter by at least one: the walk transforms every child of every element
  it reaches.
\<close>

lemma walk_visits:
  fixes cnt :: "state \<Rightarrow> nat" and x :: located
  assumes foot: "\<And>t s. cnt s \<le> cnt (addFootnote t s)"
    and push: "\<And>ty e s. cnt s \<le> cnt (pushEntity ty e s)"
    and hit: "\<And>h ch s. Suc (cnt s) \<le> cnt (snd (handleElement h (fst x) (snd x) ch s))"
    and nochoice: "localName (snd x) \<noteq> ''choice''"
    and noapp: "localName (snd x) \<noteq> ''app''"
  shows "x \<in> set (subtree ctx n) \<longrightarrow> Suc (cnt s) \<le> cnt (snd (transformNode h ctx n s))"
    and "(\<exists>k \<in> set ks. x \<in> set (subtree ctx k))
           \<longrightarrow> Suc (cnt s) \<le> cnt (snd (transformChildren h ctx ks s))"
    and "cnt s \<le> cnt (snd (transformChoice h ctx n s))"
    and "cnt s \<le> cnt (snd (transformApp h ctx n ch s))"
proof (induction h ctx n s and h ctx ks s and h ctx n s and h ctx n ch s
    rule: transformNode_transformChildren_transformChoice_transformApp.induct)
  case (1 h ctx t s)
  show ?case by simp
next
  case (2 h ctx t s)
  show ?case by simp
next
  case (3 h ctx t s)
  show ?case by simp
next
  case (4 h ctx t s)
  show ?case by simp
next
  case (5 h ctx ns nm as ks s)
  let ?node = "Element ns nm as ks"
  let ?r = "transformChildren h (?node # ctx) ks s"
  have mono1: "cnt s \<le> cnt (snd ?r)"
    by (rule walk_rel(2)[of "\<lambda>a b. cnt a \<le> cnt b"]) (simp_all add: foot push)
  have mono2: "cnt (snd ?r) \<le> cnt (snd (transformNode h ctx ?node s))"
    by (rule after_children_rel[of "\<lambda>a b. cnt a \<le> cnt b"]) (simp_all add: foot push)
  show ?case
  proof
    assume mem: "x \<in> set (subtree ctx ?node)"
    show "Suc (cnt s) \<le> cnt (snd (transformNode h ctx ?node s))"
    proof (cases "x = (ctx, ?node)")
      case True
      with nochoice noapp have nm: "nm \<noteq> ''choice''" "nm \<noteq> ''app''" by simp_all
      from hit[where h = h and ch = "fst ?r" and s = "snd ?r"] True
      have "Suc (cnt (snd ?r)) \<le> cnt (snd (handleElement h ctx ?node (fst ?r) (snd ?r)))"
        by simp
      moreover from nm
      have "snd (transformNode h ctx ?node s) = snd (handleElement h ctx ?node (fst ?r) (snd ?r))"
        by (simp add: split_beta Let_def)
      ultimately show ?thesis using mono1 by simp
    next
      case False
      with mem have "\<exists>k \<in> set ks. x \<in> set (subtree (?node # ctx) k)" by auto
      with 5(1)[OF HOL.refl] have "Suc (cnt s) \<le> cnt (snd ?r)" by blast
      with mono2 show ?thesis by simp
    qed
  qed
next
  case (6 h ctx s)
  show ?case by simp
next
  case (7 h ctx child rest s)
  let ?r = "transformNode h ctx child s"
  let ?t = "transformChildren h ctx rest (snd ?r)"
  have fin: "snd (transformChildren h ctx (child # rest) s) = snd ?t"
    by (simp add: split_beta)
  have mono1: "cnt s \<le> cnt (snd ?r)"
    by (rule walk_rel(1)[of "\<lambda>a b. cnt a \<le> cnt b"]) (simp_all add: foot push)
  have mono2: "cnt (snd ?r) \<le> cnt (snd ?t)"
    by (rule walk_rel(2)[of "\<lambda>a b. cnt a \<le> cnt b"]) (simp_all add: foot push)
  show ?case
  proof
    assume ex: "\<exists>k \<in> set (child # rest). x \<in> set (subtree ctx k)"
    show "Suc (cnt s) \<le> cnt (snd (transformChildren h ctx (child # rest) s))"
    proof (cases "x \<in> set (subtree ctx child)")
      case True
      with 7(1) have "Suc (cnt s) \<le> cnt (snd ?r)" by blast
      with mono2 fin show ?thesis by simp
    next
      case False
      with ex have "\<exists>k \<in> set rest. x \<in> set (subtree ctx k)" by auto
      with 7(2)[OF HOL.refl prod.collapse] have "Suc (cnt (snd ?r)) \<le> cnt (snd ?t)" by blast
      with mono1 fin show ?thesis by simp
    qed
  qed
next
  case (8 h ctx node s)
  show ?case
    by (rule walk_rel(3)[of "\<lambda>a b. cnt a \<le> cnt b"]) (simp_all add: foot push)
next
  case (9 h ctx node children s)
  show ?case
    by (rule walk_rel(4)[of "\<lambda>a b. cnt a \<le> cnt b"]) (simp_all add: foot push)
qed

text \<open>
  Hence an element below the element that \<open>transformChoice\<close> or \<open>transformApp\<close> walks again
  raises its counter at least twice: once when the children of the \<^verbatim>\<open>choice\<close> or \<^verbatim>\<open>app\<close> are
  transformed, once in the second walk.
\<close>

lemma second_walk_twice:
  fixes cnt :: "state \<Rightarrow> nat" and x :: located
  assumes foot: "\<And>t s. cnt s \<le> cnt (addFootnote t s)"
    and push: "\<And>ty e s. cnt s \<le> cnt (pushEntity ty e s)"
    and hit: "\<And>h ch s. Suc (cnt s) \<le> cnt (snd (handleElement h (fst x) (snd x) ch s))"
    and nochoice: "localName (snd x) \<noteq> ''choice''"
    and noapp: "localName (snd x) \<noteq> ''app''"
    and y: "y \<in> set (descendants ctx (Element ns nm as ks))"
    and x: "x \<in> set (descendants (fst y) (snd y))"
    and second: "snd (transformNode h ctx (Element ns nm as ks) s)
        = snd (transformChildren h (snd y # fst y) (childNodes (snd y))
            (snd (transformChildren h (Element ns nm as ks # ctx) ks s)))"
  shows "cnt s + 2 \<le> cnt (snd (transformNode h ctx (Element ns nm as ks) s))"
proof -
  let ?node = "Element ns nm as ks"
  let ?r = "transformChildren h (?node # ctx) ks s"
  from descendants_trans[OF y x] have "\<exists>k \<in> set ks. x \<in> set (subtree (?node # ctx) k)"
    by simp
  with walk_visits(2)[where cnt = cnt and x = x and ks = ks and ctx = "?node # ctx" and s = s
      and h = h, OF foot push hit nochoice noapp]
  have first: "Suc (cnt s) \<le> cnt (snd ?r)" by blast
  from x have "\<exists>k \<in> set (childNodes (snd y)). x \<in> set (subtree (snd y # fst y) k)"
    by (auto simp: descendants_def)
  with walk_visits(2)[where cnt = cnt and x = x and ks = "childNodes (snd y)"
      and ctx = "snd y # fst y" and s = "snd ?r" and h = h, OF foot push hit nochoice noapp]
  have "Suc (cnt (snd ?r)) \<le> cnt (snd (transformChildren h (snd y # fst y) (childNodes (snd y)) (snd ?r)))"
    by blast
  with first second show ?thesis by simp
qed

lemma semantic_cases:
  assumes "semanticType x = Some ty"
  shows "(localName (snd x) = ''persName'' \<and> ty = ''person'')
       \<or> (localName (snd x) = ''placeName'' \<and> ty = ''place'')
       \<or> (localName (snd x) = ''origPlace'' \<and> ty = ''place'')
       \<or> (localName (snd x) = ''orgName'' \<and> ty = ''organization'')
       \<or> (localName (snd x) = ''term'' \<and> \<not> isInsideHeader (fst x) \<and> ty = ''term'')"
  using assms by (auto simp: semanticType_def Let_def split: if_splits)

lemma semantic_not_walked:
  assumes "semanticType x = Some ty"
  shows "localName (snd x) \<noteq> ''choice''" and "localName (snd x) \<noteq> ''app''"
  using semantic_cases[OF assms] by auto

lemma semantic_hit:
  assumes "semanticType x = Some ty"
  shows "register ty (snd (handleElement h (fst x) (snd x) ch s)) = register ty s @ [entityOf (snd x)]"
  using semantic_cases[OF assms]
proof (elim disjE conjE)
  assume "localName (snd x) = ''persName''" "ty = ''person''"
  then show ?thesis
    by (simp add: handleElement_def transformSemanticElement_def pushEntity_def register_def Let_def)
next
  assume "localName (snd x) = ''placeName''" "ty = ''place''"
  then show ?thesis
    by (simp add: handleElement_def transformSemanticElement_def pushEntity_def register_def Let_def)
next
  assume "localName (snd x) = ''origPlace''" "ty = ''place''"
  then show ?thesis
    by (simp add: handleElement_def transformSemanticElement_def pushEntity_def register_def Let_def)
next
  assume "localName (snd x) = ''orgName''" "ty = ''organization''"
  then show ?thesis
    by (simp add: handleElement_def transformSemanticElement_def pushEntity_def register_def Let_def)
next
  assume "localName (snd x) = ''term''" "\<not> isInsideHeader (fst x)" "ty = ''term''"
  then show ?thesis
    by (simp add: handleElement_def transformSemanticElement_def pushEntity_def register_def Let_def)
qed

lemma register_addFootnote: "register ty (addFootnote t s) = register ty s"
  by (simp add: register_def addFootnote_def)

lemma register_pushEntity: "\<exists>ext. register ty (pushEntity ty' e s) = register ty s @ ext"
  by (simp add: register_def pushEntity_def)

lemma note_not_walked:
  assumes "footnoteNote x"
  shows "localName (snd x) \<noteq> ''choice''" and "localName (snd x) \<noteq> ''app''"
  using assms by (auto simp: footnoteNote_def)

lemma note_hit:
  assumes "footnoteNote x"
  shows "length (footnotes (snd (handleElement h (fst x) (snd x) ch s))) = Suc (length (footnotes s))"
  using assms
  by (auto simp: footnoteNote_def handleElement_def transformNote_def addFootnote_def Let_def)

lemma footnotesOK_distinct: "footnotesOK s \<Longrightarrow> distinct (map number (footnotes s))"
  by (simp only: footnotesOK_def distinct_upt)

text \<open>
  Claim C3, as amended. \<open>transformNode\<close> transforms the children of every element before it
  looks at the tag name. For a \<^verbatim>\<open>choice\<close> with one of the three pairs, \<open>transformChoice\<close> then
  transforms a second time the children of the first \<^verbatim>\<open>sic\<close>, \<^verbatim>\<open>abbr\<close> or \<^verbatim>\<open>orig\<close> of that pair
  (\<open>choiceTarget\<close>), and for an \<^verbatim>\<open>app\<close> with a \<^verbatim>\<open>lem\<close>, \<open>transformApp\<close> the children of the \<^verbatim>\<open>lem\<close>:
  the state after the element is the state after these two walks, one after the other.
  So for a semantic element below that \<^verbatim>\<open>sic\<close>, \<^verbatim>\<open>abbr\<close>, \<^verbatim>\<open>orig\<close> or \<^verbatim>\<open>lem\<close>, its entry is in its
  register at least two times more than before, and for a \<^verbatim>\<open>note\<close> there that produces a
  footnote, there are at least two footnotes more than before, with distinct numbers.
\<close>

theorem second_walk_duplicates:
  fixes h ctx ns nm as ks s
  defines "node \<equiv> Element ns nm as ks"
  defines "s' \<equiv> snd (transformNode h ctx node s)"
  assumes target: "(nm = ''choice'' \<and> choiceTarget ctx node = Some y)
                 \<or> (nm = ''app'' \<and> queryIn ''lem'' ctx node = Some y)"
    and x: "x \<in> set (descendants (fst y) (snd y))"
  shows "s' = snd (transformChildren h (snd y # fst y) (childNodes (snd y))
                 (snd (transformChildren h (node # ctx) ks s)))
       \<and> (semanticType x = Some ty \<longrightarrow>
            count_list (register ty s) (entityOf (snd x)) + 2
              \<le> count_list (register ty s') (entityOf (snd x)))
       \<and> (footnoteNote x \<longrightarrow>
            length (footnotes s) + 2 \<le> length (footnotes s')
            \<and> (footnotesOK s \<longrightarrow> distinct (map number (footnotes s'))))"
proof (intro conjI impI)
  let ?r = "transformChildren h (node # ctx) ks s"
  from target show second:
    "s' = snd (transformChildren h (snd y # fst y) (childNodes (snd y)) (snd ?r))"
  proof
    assume "nm = ''choice'' \<and> choiceTarget ctx node = Some y"
    then have nm: "nm = ''choice''"
      and ct: "choiceTarget ctx (Element ns ''choice'' as ks) = Some y"
      by (auto simp: node_def)
    show ?thesis
      unfolding s'_def node_def nm
      by (simp add: split_beta Let_def transformChoice_target[OF ct])
  next
    assume "nm = ''app'' \<and> queryIn ''lem'' ctx node = Some y"
    then have nm: "nm = ''app''"
      and q: "queryIn ''lem'' ctx (Element ns ''app'' as ks) = Some y"
      by (auto simp: node_def)
    show ?thesis
      unfolding s'_def node_def nm
      by (simp add: split_beta Let_def transformApp_lem[OF q])
  qed
  from target have y: "y \<in> set (descendants ctx (Element ns nm as ks))"
    unfolding node_def by (auto dest: choiceTarget_mem queryIn_mem)
  note second' = second[unfolded s'_def node_def]
  {
    assume sem: "semanticType x = Some ty"
    let ?cnt = "\<lambda>s. count_list (register ty s) (entityOf (snd x))"
    have foot: "\<And>t s. ?cnt s \<le> ?cnt (addFootnote t s)"
      by (simp add: register_addFootnote)
    have push: "\<And>ty' e s. ?cnt s \<le> ?cnt (pushEntity ty' e s)"
    proof -
      fix ty' e s
      from register_pushEntity[of ty ty' e s]
      obtain ext where "register ty (pushEntity ty' e s) = register ty s @ ext" by blast
      then show "?cnt s \<le> ?cnt (pushEntity ty' e s)" by simp
    qed
    have hit: "\<And>h ch s. Suc (?cnt s) \<le> ?cnt (snd (handleElement h (fst x) (snd x) ch s))"
      by (simp add: semantic_hit[OF sem])
    from second_walk_twice[of ?cnt x y ctx ns nm as ks h s, OF foot push hit
        semantic_not_walked[OF sem] y x second']
    show "count_list (register ty s) (entityOf (snd x)) + 2
              \<le> count_list (register ty s') (entityOf (snd x))"
      unfolding s'_def node_def .
  }
  {
    assume fnote: "footnoteNote x"
    let ?cnt = "\<lambda>s. length (footnotes s)"
    have foot: "\<And>t s. ?cnt s \<le> ?cnt (addFootnote t s)"
      by (simp add: addFootnote_def)
    have push: "\<And>ty' e s. ?cnt s \<le> ?cnt (pushEntity ty' e s)"
      by (simp add: pushEntity_footnotes)
    have hit: "\<And>h ch s. Suc (?cnt s) \<le> ?cnt (snd (handleElement h (fst x) (snd x) ch s))"
      by (simp add: note_hit[OF fnote])
    from second_walk_twice[of ?cnt x y ctx ns nm as ks h s, OF foot push hit
        note_not_walked[OF fnote] y x second']
    show "length (footnotes s) + 2 \<le> length (footnotes s')"
      unfolding s'_def node_def .
  }
  {
    assume "footnotesOK s"
    with footnotesOK_walk[of s h ctx node] have "footnotesOK s'"
      unfolding s'_def by blast
    then show "distinct (map number (footnotes s'))" by (rule footnotesOK_distinct)
  }
qed

lemma exampleChoice_state:
  "snd (transformNode exampleHost [] exampleChoice loadedState) =
     \<lparr> normalizedMode = False, footnoteCounter = 2,
       footnotes = [\<lparr>number = 1, content = ''n''\<rparr>, \<lparr>number = 2, content = ''n''\<rparr>],
       persons = [\<lparr>name = ''Hans'', ref = [], role = []\<rparr>,
                  \<lparr>name = ''Anna'', ref = [], role = []\<rparr>,
                  \<lparr>name = ''Hans'', ref = [], role = []\<rparr>],
       places = [], organizations = [], terms = [] \<rparr>"
  by code_simp

lemma exampleChoice_target: "choiceTarget [] exampleChoice = Some ([exampleChoice], exampleSic)"
  by code_simp

theorem second_walk_duplicates_witness:
  "choiceTarget [] exampleChoice = Some ([exampleChoice], exampleSic)
   \<and> ([exampleSic, exampleChoice], tei ''persName'' [] [Text ''Hans''])
       \<in> set (descendants [exampleChoice] exampleSic)
   \<and> ([exampleSic, exampleChoice], tei ''note'' [] [Text ''n''])
       \<in> set (descendants [exampleChoice] exampleSic)
   \<and> 2 \<le> count_list (persons (snd (transformNode exampleHost [] exampleChoice loadedState)))
            \<lparr>name = ''Hans'', ref = [], role = []\<rparr>
   \<and> 2 \<le> length (footnotes (snd (transformNode exampleHost [] exampleChoice loadedState)))
   \<and> footnotes (snd (transformNode exampleHost [] exampleChoice loadedState))
       = [\<lparr>number = 1, content = ''n''\<rparr>, \<lparr>number = 2, content = ''n''\<rparr>]"
proof -
  let ?corr = "tei ''corr'' [] [Text ''y'', tei ''persName'' [] [Text ''Anna'']]"
  let ?y = "([exampleChoice], exampleSic)"
  let ?p = "([exampleSic, exampleChoice], tei ''persName'' [] [Text ''Hans''])"
  let ?n = "([exampleSic, exampleChoice], tei ''note'' [] [Text ''n''])"
  have t: "choiceTarget [] exampleChoice = Some ?y"
    by (rule exampleChoice_target)
  have c: "Element TEI_NS ''choice'' [] [exampleSic, ?corr] = exampleChoice"
    by (simp add: exampleChoice_def tei_def)
  have p: "?p \<in> set (descendants [exampleChoice] exampleSic)"
    by (simp add: descendants_def exampleSic_def tei_def)
  have n: "?n \<in> set (descendants [exampleChoice] exampleSic)"
    by (simp add: descendants_def exampleSic_def tei_def)
  have p': "?p \<in> set (descendants (fst ?y) (snd ?y))" using p by (simp only: fst_conv snd_conv)
  have n': "?n \<in> set (descendants (fst ?y) (snd ?y))" using n by (simp only: fst_conv snd_conv)
  have sp: "semanticType ?p = Some ''person''" by (simp add: semanticType_def tei_def)
  have fn: "footnoteNote ?n" by (simp add: footnoteNote_def tei_def getAttribute_def orEmpty_def)
  have e: "entityOf (tei ''persName'' [] [Text ''Hans'']) = \<lparr>name = ''Hans'', ref = [], role = []\<rparr>"
    by code_simp
  have t': "(''choice'' = ''choice'' \<and> choiceTarget [] (Element TEI_NS ''choice'' [] [exampleSic, ?corr])
               = Some ?y)
          \<or> (''choice'' = ''app'' \<and> queryIn ''lem'' [] (Element TEI_NS ''choice'' [] [exampleSic, ?corr])
               = Some ?y)"
    using t by (simp only: c simp_thms)
  note wp = second_walk_duplicates[where ns = TEI_NS and nm = "''choice''" and as = "[]"
      and ks = "[exampleSic, ?corr]" and ctx = "[]" and y = ?y and x = ?p
      and h = exampleHost and s = loadedState and ty = "''person''", OF t' p']
  note wn = second_walk_duplicates[where ns = TEI_NS and nm = "''choice''" and as = "[]"
      and ks = "[exampleSic, ?corr]" and ctx = "[]" and y = ?y and x = ?n
      and h = exampleHost and s = loadedState and ty = "''person''", OF t' n']
  from wp[THEN conjunct2, THEN conjunct1, THEN mp, OF sp]
  have "count_list (register ''person'' loadedState) (entityOf (snd ?p)) + 2
          \<le> count_list (register ''person'' (snd (transformNode exampleHost [] exampleChoice loadedState)))
               (entityOf (snd ?p))"
    by (simp only: c)
  then have a: "2 \<le> count_list (persons (snd (transformNode exampleHost [] exampleChoice loadedState)))
            \<lparr>name = ''Hans'', ref = [], role = []\<rparr>"
    by (simp add: register_def e)
  from wn[THEN conjunct2, THEN conjunct2, THEN mp, OF fn, THEN conjunct1]
  have "length (footnotes loadedState) + 2
          \<le> length (footnotes (snd (transformNode exampleHost [] exampleChoice loadedState)))"
    by (simp only: c)
  then have b: "2 \<le> length (footnotes (snd (transformNode exampleHost [] exampleChoice loadedState)))"
    by simp
  have d: "footnotes (snd (transformNode exampleHost [] exampleChoice loadedState))
       = [\<lparr>number = 1, content = ''n''\<rparr>, \<lparr>number = 2, content = ''n''\<rparr>]"
    by (simp add: exampleChoice_state)
  from t p n a b d show ?thesis by (intro conjI)
qed

text \<open>
  Claim C3 as stated speaks of every semantic element nested inside such a \<^verbatim>\<open>choice\<close> or
  \<^verbatim>\<open>app\<close>. In \<open>exampleChoice\<close> the pair \<^verbatim>\<open>sic\<close> and \<^verbatim>\<open>corr\<close> is present and the name \<^verbatim>\<open>Anna\<close> is
  nested inside the \<^verbatim>\<open>choice\<close>, in its \<^verbatim>\<open>corr\<close>; it is entered into the register once, not
  twice.
\<close>

theorem corr_once_counterexample:
  "choiceTarget [] exampleChoice = Some ([exampleChoice], exampleSic)
   \<and> ([tei ''corr'' [] [Text ''y'', tei ''persName'' [] [Text ''Anna'']], exampleChoice],
        tei ''persName'' [] [Text ''Anna''])
       \<in> set (descendants [] exampleChoice)
   \<and> count_list (persons (snd (transformNode exampleHost [] exampleChoice loadedState)))
        \<lparr>name = ''Anna'', ref = [], role = []\<rparr> = 1"
proof -
  have "([tei ''corr'' [] [Text ''y'', tei ''persName'' [] [Text ''Anna'']], exampleChoice],
           tei ''persName'' [] [Text ''Anna''])
          \<in> set (descendants [] exampleChoice)"
    by (simp add: descendants_def exampleChoice_def exampleSic_def tei_def)
  then show ?thesis
    by (simp add: exampleChoice_state exampleChoice_target)
qed

section \<open>Properties of transform\<close>

lemma transform_any_state: "transform h s xmlDoc normalized = transform h t xmlDoc normalized"
  by (simp only: transform_def reset_state)

lemma transform_exampleDoc2:
  "fst (transform exampleHost loadedState exampleDoc2 False) =
     \<lparr> resultMetadata = None,
       resultSummary = [],
       resultHeading = None,
       resultBody = Some (''<div class=\"body\"><p class=\"tei-p\"><span class=\"semantic place\" data-tooltip=\"Ort\" data-tooltip-type=\"place\" data-ref=\"\">Bern</span></p></div>''),
       resultBack = None,
       resultFootnotes = [],
       resultRegisters =
         \<lparr> regPersons = [], regPlaces = [\<lparr>name = ''Bern'', ref = [], role = []\<rparr>],
           regOrganizations = [], regTerms = [] \<rparr> \<rparr>"
  by code_simp

text \<open>
  Claim C6. Whatever state an earlier call has left in the module, in particular after
  \<open>transform\<close> of a document \<open>d1\<close>, the call of \<open>transform\<close> on \<open>d2\<close> returns the result, and
  leaves the state, that it returns and leaves on a freshly loaded module: the footnote
  numbers start again and no entry from \<open>d1\<close> is in the registers.
\<close>

theorem transform_no_leak:
  "transform h (snd (transform h s d1 n1)) d2 n2 = transform h loadedState d2 n2"
  by (rule transform_any_state)

theorem transform_no_leak_witness:
  "resultFootnotes (fst (transform exampleHost
      (snd (transform exampleHost loadedState exampleDoc False)) exampleDoc2 False)) = []
   \<and> regPersons (resultRegisters (fst (transform exampleHost
      (snd (transform exampleHost loadedState exampleDoc False)) exampleDoc2 False))) = []
   \<and> regPlaces (resultRegisters (fst (transform exampleHost
      (snd (transform exampleHost loadedState exampleDoc False)) exampleDoc2 False)))
       = [\<lparr>name = ''Bern'', ref = [], role = []\<rparr>]"
  using transform_no_leak[of exampleHost loadedState exampleDoc False exampleDoc2 False]
  by (simp add: transform_exampleDoc2)

section \<open>The footnotes and the order of the walk\<close>
















































section \<open>Properties of the entity registers\<close>

lemma set_insertBy: "set (insertBy c x ys) = insert x (set ys)"
  by (induction ys) auto

lemma set_arraySort: "set (arraySort c xs) = set xs"
  by (induction xs) (auto simp: arraySort_def set_insertBy)

lemma distinct_map_insertBy:
  "distinct (map f (insertBy c x ys)) = (f x \<notin> f ` set ys \<and> distinct (map f ys))"
  by (induction ys) (auto simp: set_insertBy)

lemma distinct_map_arraySort: "distinct (map f (arraySort c xs)) = distinct (map f xs)"
  by (induction xs) (auto simp: arraySort_def distinct_map_insertBy set_arraySort[unfolded arraySort_def])

lemma sorted_insertBy:
  assumes tot: "\<And>a b. c a b \<le> 0 \<or> c b a \<le> 0"
      and tr: "\<And>a b d. c a b \<le> 0 \<Longrightarrow> c b d \<le> 0 \<Longrightarrow> c a d \<le> 0"
  shows "sorted_wrt (\<lambda>a b. c a b \<le> 0) ys \<Longrightarrow> sorted_wrt (\<lambda>a b. c a b \<le> 0) (insertBy c x ys)"
proof (induction ys)
  case Nil
  then show ?case by simp
next
  case (Cons y ys)
  show ?case
  proof (cases "c x y \<le> 0")
    case True
    with Cons.prems tr show ?thesis by auto
  next
    case False
    with tot have "c y x \<le> 0" by blast
    with False Cons show ?thesis by (auto simp: set_insertBy)
  qed
qed

lemma sorted_arraySort:
  assumes tot: "\<And>a b. c a b \<le> 0 \<or> c b a \<le> 0"
      and tr: "\<And>a b d. c a b \<le> 0 \<Longrightarrow> c b d \<le> 0 \<Longrightarrow> c a d \<le> 0"
  shows "sorted_wrt (\<lambda>a b. c a b \<le> 0) (arraySort c xs)"
proof (induction xs)
  case Nil
  then show ?case by (simp add: arraySort_def)
next
  case (Cons x xs)
  then show ?case
    using sorted_insertBy[of c, OF tot tr] by (simp add: arraySort_def)
qed

lemma arraySort_sorted_id:
  "sorted_wrt (\<lambda>a b. c a b \<le> 0) xs \<Longrightarrow> arraySort c xs = xs"
proof (induction xs)
  case Nil
  then show ?case by (simp add: arraySort_def)
next
  case (Cons x xs)
  then have "arraySort c xs = xs" by simp
  then have "arraySort c (x # xs) = insertBy c x xs" by (simp add: arraySort_def)
  also from Cons.prems have "insertBy c x xs = x # xs" by (cases xs) auto
  finally show ?case .
qed

lemma seen_keys:
  "set (map fst (fold seenStep xs acc)) = set (map fst acc) \<union> entityKey ` set xs"
  by (induction xs arbitrary: acc) (auto simp: seenStep_def Let_def)

lemma seen_distinct:
  "distinct (map fst acc) \<Longrightarrow> distinct (map fst (fold seenStep xs acc))"
  by (induction xs arbitrary: acc) (auto simp: seenStep_def Let_def)

lemma seen_first:
  "(k, e) \<in> set (fold seenStep xs acc) \<Longrightarrow>
     (k, e) \<in> set acc \<or> (k \<notin> fst ` set acc \<and> find (\<lambda>x. entityKey x = k) xs = Some e)"
proof (induction xs arbitrary: acc)
  case Nil
  then show ?case by simp
next
  case (Cons x xs)
  from Cons.prems have "(k, e) \<in> set (fold seenStep xs (seenStep x acc))" by simp
  from Cons.IH[OF this] show ?case
    by (auto simp: seenStep_def Let_def split: if_splits)
qed

lemma seen_fresh:
  "distinct (map entityKey xs) \<Longrightarrow> entityKey ` set xs \<inter> fst ` set acc = {} \<Longrightarrow>
     fold seenStep xs acc = acc @ map (\<lambda>e. (entityKey e, e)) xs"
proof (induction xs arbitrary: acc)
  case Nil
  then show ?case by simp
next
  case (Cons x xs)
  from Cons.prems have fresh: "entityKey x \<notin> fst ` set acc" by auto
  then have step: "seenStep x acc = acc @ [(entityKey x, x)]"
    by (simp add: seenStep_def)
  from Cons.prems have "entityKey ` set xs \<inter> fst ` set (acc @ [(entityKey x, x)]) = {}"
    by auto
  with Cons.IH[of "acc @ [(entityKey x, x)]"] Cons.prems step show ?case by simp
qed


lemma dedup_first:
  assumes "e \<in> set (deduplicateEntities h xs)"
  shows "find (\<lambda>x. entityKey x = entityKey e) xs = Some e"
proof -
  from assms have "e \<in> snd ` set (fold seenStep xs [])"
    by (simp add: deduplicateEntities_def set_arraySort)
  then obtain k where k: "(k, e) \<in> set (fold seenStep xs [])" by force
  from seen_first[OF k] have f: "find (\<lambda>x. entityKey x = k) xs = Some e" by simp
  then have "entityKey e = k" by (auto simp: find_Some_iff)
  with f show ?thesis by simp
qed

lemma seen_snd_keys:
  "map entityKey (map snd (fold seenStep xs [])) = map fst (fold seenStep xs [])"
proof -
  have "\<And>p. p \<in> set (fold seenStep xs []) \<Longrightarrow> entityKey (snd p) = fst p"
  proof -
    fix p assume "p \<in> set (fold seenStep xs [])"
    then have "(fst p, snd p) \<in> set (fold seenStep xs [])" by simp
    from seen_first[OF this] have "find (\<lambda>x. entityKey x = fst p) xs = Some (snd p)" by simp
    then show "entityKey (snd p) = fst p" by (auto simp: find_Some_iff)
  qed
  then show ?thesis by simp
qed

lemma dedup_distinct: "distinct (map entityKey (deduplicateEntities h xs))"
  using seen_distinct[of "[]" xs]
  by (simp add: deduplicateEntities_def distinct_map_arraySort seen_snd_keys del: map_map)

lemma dedup_keys: "entityKey ` set (deduplicateEntities h xs) = entityKey ` set xs"
proof -
  have "entityKey ` set (deduplicateEntities h xs) = set (map entityKey (map snd (fold seenStep xs [])))"
    by (simp add: deduplicateEntities_def set_arraySort image_image)
  also have "\<dots> = entityKey ` set xs"
    using seen_keys[of xs "[]"] by (simp only: seen_snd_keys) simp
  finally show ?thesis .
qed

lemma collationOrder_total:
  assumes "collationOrder h"
  shows "localeCompare h a b \<le> 0 \<or> localeCompare h b a \<le> 0"
proof -
  from assms have "\<forall>a b. localeCompare h a b \<le> 0 \<or> localeCompare h b a \<le> 0"
    unfolding collationOrder_def by (rule conjunct1)
  then show ?thesis by blast
qed

lemma collationOrder_trans:
  assumes "collationOrder h" and ab: "localeCompare h a b \<le> 0" and bc: "localeCompare h b c \<le> 0"
  shows "localeCompare h a c \<le> 0"
proof -
  from assms(1) have "\<forall>a b c. localeCompare h a b \<le> 0 \<and> localeCompare h b c \<le> 0
      \<longrightarrow> localeCompare h a c \<le> 0"
    unfolding collationOrder_def by (rule conjunct2)
  with ab bc show ?thesis by blast
qed

lemma dedup_sorted:
  assumes "collationOrder h"
  shows "sorted_wrt (\<lambda>a b. localeCompare h (name a) (name b) \<le> 0) (deduplicateEntities h xs)"
proof -
  let ?c = "\<lambda>a b. localeCompare h (name a) (name b)"
  have tot: "\<And>a b. ?c a b \<le> 0 \<or> ?c b a \<le> 0"
    by (rule collationOrder_total[OF assms])
  have tr: "\<And>a b d. ?c a b \<le> 0 \<Longrightarrow> ?c b d \<le> 0 \<Longrightarrow> ?c a d \<le> 0"
    by (rule collationOrder_trans[OF assms])
  have "sorted_wrt (\<lambda>a b. ?c a b \<le> 0) (arraySort ?c (map snd (fold seenStep xs [])))"
    by (rule sorted_arraySort[of ?c, OF tot tr])
  then show ?thesis
    by (simp add: deduplicateEntities_def)
qed

lemma bytesCompare_total: "bytesCompare a b \<le> 0 \<or> bytesCompare b a \<le> 0"
  by (induction a b rule: bytesCompare.induct) auto

lemma bytesCompare_trans:
  "bytesCompare a b \<le> 0 \<Longrightarrow> bytesCompare b c \<le> 0 \<Longrightarrow> bytesCompare a c \<le> 0"
proof (induction a b arbitrary: c rule: bytesCompare.induct)
  case 1
  then show ?case by simp
next
  case (2 y ys)
  then show ?case by (cases c) auto
next
  case (3 x xs)
  then show ?case by simp
next
  case (4 x xs y ys)
  show ?case
  proof (cases c)
    case Nil
    with "4.prems" show ?thesis by simp
  next
    case (Cons z zs)
    from "4.prems"(1) have xy: "\<not> (of_char y :: nat) < of_char x"
      by (simp split: if_splits)
    from "4.prems"(2) Cons have yz: "\<not> (of_char z :: nat) < of_char y"
      by (simp split: if_splits)
    show ?thesis
    proof (cases "(of_char x :: nat) < of_char z")
      case True
      with Cons show ?thesis by simp
    next
      case False
      with xy yz have "(of_char x :: nat) = of_char y \<and> (of_char y :: nat) = of_char z"
        by linarith
      then have e: "x = y" "y = z" by simp_all
      with "4.prems" Cons have le: "bytesCompare xs ys \<le> 0" "bytesCompare ys zs \<le> 0"
        by simp_all
      from e have ne: "\<not> (of_char x :: nat) < of_char y" "\<not> (of_char y :: nat) < of_char x"
        by simp_all
      from ne le have "bytesCompare xs zs \<le> 0"
        by (rule "4.IH")
      with e Cons show ?thesis by simp
    qed
  qed
qed

lemma collationOrder_exampleHost: "collationOrder exampleHost"
proof -
  have eq: "localeCompare exampleHost = bytesCompare" by (simp add: exampleHost_def)
  show ?thesis
    unfolding collationOrder_def eq
  proof (intro conjI allI impI)
    fix a b show "bytesCompare a b \<le> 0 \<or> bytesCompare b a \<le> 0" by (rule bytesCompare_total)
  next
    fix a b c assume "bytesCompare a b \<le> 0 \<and> bytesCompare b c \<le> 0"
    then show "bytesCompare a c \<le> 0" using bytesCompare_trans by blast
  qed
qed

lemma dedup_example:
  "deduplicateEntities exampleHost exampleEntities =
     [\<lparr>name = ''Anna'', ref = '''', role = ''''\<rparr>,
      \<lparr>name = ''Zwingli'', ref = ''per1'', role = ''''\<rparr>]"
  by code_simp

text \<open>
  Claim C4. For every sequence of entity entries, \<open>deduplicateEntities\<close> keeps the
  first-seen entry of every key (the key is \<open>ref\<close> if non-empty, else \<open>name\<close>): no two
  entries of the output have the same key, every key of the output is a key of the
  input, every entry of the output is the first entry of the input with its key, every
  key of the input is kept, and the output is in ascending order of \<open>name\<close> under the
  collation of the host (the German one in the program).
\<close>

theorem dedup_spec:
  assumes "collationOrder h"
  shows "distinct (map entityKey (deduplicateEntities h xs))
       \<and> entityKey ` set (deduplicateEntities h xs) \<subseteq> entityKey ` set xs
       \<and> (\<forall>e \<in> set (deduplicateEntities h xs). find (\<lambda>x. entityKey x = entityKey e) xs = Some e)
       \<and> (\<forall>x \<in> set xs. \<exists>e \<in> set (deduplicateEntities h xs). entityKey e = entityKey x)
       \<and> sorted_wrt (\<lambda>a b. localeCompare h (name a) (name b) \<le> 0) (deduplicateEntities h xs)"
proof (intro conjI)
  show "distinct (map entityKey (deduplicateEntities h xs))" by (rule dedup_distinct)
  show "entityKey ` set (deduplicateEntities h xs) \<subseteq> entityKey ` set xs"
    by (simp add: dedup_keys)
  show "\<forall>e \<in> set (deduplicateEntities h xs). find (\<lambda>x. entityKey x = entityKey e) xs = Some e"
    by (simp add: dedup_first)
  show "\<forall>x \<in> set xs. \<exists>e \<in> set (deduplicateEntities h xs). entityKey e = entityKey x"
    using dedup_keys[of h xs] by (metis imageE imageI)
  show "sorted_wrt (\<lambda>a b. localeCompare h (name a) (name b) \<le> 0) (deduplicateEntities h xs)"
    by (rule dedup_sorted[OF assms])
qed

theorem dedup_spec_witness:
  "collationOrder exampleHost
   \<and> deduplicateEntities exampleHost exampleEntities =
        [\<lparr>name = ''Anna'', ref = '''', role = ''''\<rparr>,
         \<lparr>name = ''Zwingli'', ref = ''per1'', role = ''''\<rparr>]
   \<and> distinct (map entityKey (deduplicateEntities exampleHost exampleEntities))
   \<and> entityKey ` set (deduplicateEntities exampleHost exampleEntities)
       \<subseteq> entityKey ` set exampleEntities
   \<and> find (\<lambda>x. entityKey x = ''per1'') exampleEntities
       = Some \<lparr>name = ''Zwingli'', ref = ''per1'', role = ''''\<rparr>
   \<and> sorted_wrt (\<lambda>a b. localeCompare exampleHost (name a) (name b) \<le> 0)
        (deduplicateEntities exampleHost exampleEntities)"
proof -
  let ?z = "\<lparr>name = ''Zwingli'', ref = ''per1'', role = ''''\<rparr>"
  note spec = dedup_spec[OF collationOrder_exampleHost, of exampleEntities]
  have mem: "?z \<in> set (deduplicateEntities exampleHost exampleEntities)"
    by (simp add: dedup_example)
  have key: "entityKey ?z = ''per1''"
    by (simp add: entityKey_def)
  from spec have "\<forall>e \<in> set (deduplicateEntities exampleHost exampleEntities).
      find (\<lambda>x. entityKey x = entityKey e) exampleEntities = Some e"
    by (elim conjE)
  with mem have "find (\<lambda>x. entityKey x = entityKey ?z) exampleEntities = Some ?z"
    by blast
  then have "find (\<lambda>x. entityKey x = ''per1'') exampleEntities = Some ?z"
    by (simp only: key)
  with spec collationOrder_exampleHost dedup_example show ?thesis
    by (intro conjI) (elim conjE, assumption)+
qed

text \<open>
  Claim C9. \<open>deduplicateEntities\<close> is idempotent: applied to its own output it returns
  that output.
\<close>

theorem dedup_idem:
  assumes "collationOrder h"
  shows "deduplicateEntities h (deduplicateEntities h xs) = deduplicateEntities h xs"
proof -
  let ?d = "deduplicateEntities h xs"
  have "fold seenStep ?d [] = map (\<lambda>e. (entityKey e, e)) ?d"
    using seen_fresh[of ?d "[]"] dedup_distinct[of h xs] by simp
  then have "map snd (fold seenStep ?d []) = ?d" by (simp add: comp_def)
  then have "deduplicateEntities h ?d = arraySort (\<lambda>a b. localeCompare h (name a) (name b)) ?d"
    by (simp add: deduplicateEntities_def)
  also have "\<dots> = ?d"
    by (rule arraySort_sorted_id) (rule dedup_sorted[OF assms])
  finally show ?thesis .
qed

theorem dedup_idem_witness:
  "collationOrder exampleHost
   \<and> deduplicateEntities exampleHost (deduplicateEntities exampleHost exampleEntities)
       = [\<lparr>name = ''Anna'', ref = '''', role = ''''\<rparr>,
          \<lparr>name = ''Zwingli'', ref = ''per1'', role = ''''\<rparr>]"
  using dedup_idem[OF collationOrder_exampleHost, of exampleEntities]
    collationOrder_exampleHost
  by (simp add: dedup_example)

section \<open>Properties of the date formatter and the rendition mapper\<close>

lemma formatDate_passthrough:
  "length (splitOn CHR ''-'' s) \<noteq> 3 \<Longrightarrow> length (splitOn CHR ''-'' s) \<noteq> 2 \<Longrightarrow> formatDate h s = s"
  by (simp add: formatDate_def)

text \<open>
  Claim C2. \<open>formatDate\<close> maps \<^verbatim>\<open>1423-03-15\<close> to "15. M\<open>a_uml\<close>rz 1423" and \<^verbatim>\<open>1423-03\<close> to
  "M\<open>a_uml\<close>rz 1423" (\<open>a_uml\<close> is the a with diaeresis). The claim goes on to say that any other string comes back unchanged, and
  \<^verbatim>\<open>not-a-date\<close> in particular; the code only looks at the number of pieces between
  hyphens (\<open>formatDate_passthrough\<close>), and \<^verbatim>\<open>not-a-date\<close> has three, so it is formatted as
  a date: the day is \<^verbatim>\<open>NaN\<close>, the month \<^verbatim>\<open>undefined\<close>, the year \<^verbatim>\<open>not\<close>.
\<close>

theorem formatDate_examples:
  "formatDate h ''1423-03-15'' = ''15. M'' @ a_uml @ ''rz 1423''
   \<and> formatDate h ''1423-03'' = ''M'' @ a_uml @ ''rz 1423''
   \<and> formatDate h ''not-a-date'' = ''NaN. undefined not''"
  by code_simp

lemma tokens_constructor:
  "filter (\<lambda>t. t \<noteq> []) (map trim (splitWs ''constructor'')) = [''constructor'']"
  by code_simp

lemma tokens_bold_sup:
  "filter (\<lambda>t. t \<noteq> []) (map trim (splitWs ''bold sup'')) = [''bold'', ''sup'']"
  by code_simp

lemma rendMap_constructor: "map_of rendMap ''constructor'' = None"
  by code_simp

lemma getRenditionClass_bold_sup:
  assumes "toLowerCase h ''bold sup'' = ''bold sup''"
  shows "getRenditionClass h ''bold sup'' = ''simple_bold simple_superscript''"
proof -
  have b: "tokenClass h ''bold'' = Some (Str ''simple_bold'')"
    by (simp add: tokenClass_def startsWith_def objectGet_def rendMap_def)
  have s: "tokenClass h ''sup'' = Some (Str ''simple_superscript'')"
    by (simp add: tokenClass_def startsWith_def objectGet_def rendMap_def)
  show ?thesis
    using assms b s by (simp add: getRenditionClass_def rendTokens_def tokens_bold_sup
        List.map_filter_simps uniq_def valText_def)
qed

lemma getRenditionClass_empty: "getRenditionClass h [] = ''tei-hi''"
  by (simp add: getRenditionClass_def)

lemma getRenditionClass_fallback:
  assumes "\<forall>t \<in> set (rendTokens h rend). tokenClass h t = None"
  shows "getRenditionClass h rend = ''tei-hi''"
proof -
  have "List.map_filter (tokenClass h) (rendTokens h rend) = []"
    using assms by (induction "rendTokens h rend") (auto simp: List.map_filter_def)
  then show ?thesis by (simp add: getRenditionClass_def)
qed

text \<open>
  Claim C8. \<open>getRenditionClass\<close> maps \<^verbatim>\<open>bold sup\<close> to \<^verbatim>\<open>simple_bold simple_superscript\<close>
  (\<open>getRenditionClass_bold_sup\<close>), the empty string to \<^verbatim>\<open>tei-hi\<close>
  (\<open>getRenditionClass_empty\<close>), and an input none of whose tokens yields a class to
  \<^verbatim>\<open>tei-hi\<close> (\<open>getRenditionClass_fallback\<close>). The claim says that every token outside the
  prefixes and the synonym table yields no class. The table is an object literal read
  with \<^verbatim>\<open>rendMap[token]\<close>, so the token \<^verbatim>\<open>constructor\<close> finds the property that every object
  inherits from \<^verbatim>\<open>Object.prototype\<close>; the value is truthy and is pushed as a class. For
  that input the result is the text of the inherited value, not \<^verbatim>\<open>tei-hi\<close>.
\<close>

theorem getRenditionClass_constructor:
  assumes "toLowerCase h ''constructor'' = ''constructor''"
      and "inherited h ''constructor'' = Some t"
  shows "getRenditionClass h ''constructor'' = t"
proof -
  have "tokenClass h ''constructor'' = Some (Inherited ''constructor'')"
    using assms(2) by (simp add: tokenClass_def startsWith_def objectGet_def rendMap_constructor)
  then show ?thesis
    using assms by (simp add: getRenditionClass_def rendTokens_def tokens_constructor
        List.map_filter_simps uniq_def valText_def optText_def)
qed

theorem getRenditionClass_constructor_witness:
  "toLowerCase exampleHost ''constructor'' = ''constructor''
   \<and> inherited exampleHost ''constructor'' = Some ''function Object() { [native code] }''
   \<and> getRenditionClass exampleHost ''constructor'' = ''function Object() { [native code] }''"
proof -
  have a: "toLowerCase exampleHost ''constructor'' = ''constructor''" by code_simp
  have b: "inherited exampleHost ''constructor'' = Some ''function Object() { [native code] }''"
    by (simp add: exampleHost_def)
  from getRenditionClass_constructor[OF a b] a b show ?thesis by simp
qed


end
